theory Spec2Isabelle
  imports Main
begin

section \<open>The IFC model as seen by ifcdot.py\<close>

text \<open>
  An entity of an IFC file as the program uses it: \<open>id()\<close>, \<open>is_a()\<close> (the class
  name), \<open>is_a(t)\<close> (the class or one of its supertypes is \<open>t\<close>) and, for relationships,
  the attributes that hold one entity (or Python's \<open>None\<close>) and the attributes that
  hold a tuple of entities (the schema declares them as sets, so they are iterable
  whenever they exist).  Reading an attribute that the entity does not have is an
  \<open>AttributeError\<close>, as is \<open>.id()\<close> on \<open>None\<close>.  The class hierarchy belongs to the IFC
  schema of ifcopenshell, not to this program, so every entity carries the list of its
  supertypes.
\<close>

datatype entity = Entity
  (eid: int)
  (ety: string)
  (supers: "string list")
  (refs: "(string \<times> entity option) list")
  (ref_seqs: "(string \<times> entity list) list")

text \<open>
  The file handle: its instances in enumeration order, and the external query
  \<open>ifcopenshell.util.element.get_decomposition\<close>, which is not code of this program.
\<close>

record ifc_file =
  instances :: "entity list"
  get_decomposition :: "entity \<Rightarrow> entity list"

datatype error = AttributeError | KeyError int | RecursionError

definition is_a :: "entity \<Rightarrow> string \<Rightarrow> bool" where
  "is_a e t \<longleftrightarrow> t = ety e \<or> t \<in> set (supers e)"

definition by_type :: "ifc_file \<Rightarrow> string \<Rightarrow> entity list" where
  "by_type f t = filter (\<lambda>e. is_a e t) (instances f)"

definition getattr :: "entity \<Rightarrow> string \<Rightarrow> error + entity option" where
  "getattr r a = (case map_of (refs r) a of None \<Rightarrow> Inl AttributeError | Some v \<Rightarrow> Inr v)"

definition getattr_seq :: "entity \<Rightarrow> string \<Rightarrow> error + entity list" where
  "getattr_seq r a = (case map_of (ref_seqs r) a of None \<Rightarrow> Inl AttributeError | Some v \<Rightarrow> Inr v)"

section \<open>Python's str on integers, and the node label\<close>

definition digit_char :: "nat \<Rightarrow> char" where
  "digit_char n = ''0123456789'' ! n"

function str_nat :: "nat \<Rightarrow> string" where
  "str_nat n = (if n < 10 then [digit_char n] else str_nat (n div 10) @ [digit_char (n mod 10)])"
  by pat_completeness auto
termination
  by (relation "measure id") auto

declare str_nat.simps [simp del]

definition str_int :: "int \<Rightarrow> string" where
  "str_int i = (if i < 0 then CHR ''-'' # str_nat (nat (- i)) else str_nat (nat i))"

text \<open>Lines 65-67: \<open>"#" + str(ifc_object.id()) + "=" + str(ifc_object.is_a())\<close>.\<close>

definition label_of :: "entity \<Rightarrow> string" where
  "label_of e = ''#'' @ str_int (eid e) @ ''='' @ ety e"

section \<open>The emitted graph description\<close>

text \<open>
  One constructor for each kind of line that the program writes; \<open>render\<close> gives the
  text of the line.
\<close>

datatype stmt =
    GraphOpen
  | GraphAttrs
  | NodeStmt string string
  | EdgeStmt string string string string
  | SubgraphOpen int
  | ClusterTrue
  | Member string
  | BlockClose

fun render :: "stmt \<Rightarrow> string" where
  "render GraphOpen = ''strict graph G {'' @ [CHR 10]"
| "render GraphAttrs = ''graph [overlap=false,splines=true,rankdir=LR];'' @ [CHR 10]"
| "render (NodeStmt l c) =
     [CHR 34] @ l @ [CHR 34] @ '' [color='' @ [CHR 34] @ c @ [CHR 34] @ '',style=filled];'' @ [CHR 10]"
| "render (EdgeStmt l1 l2 w s) =
     [CHR 34] @ l1 @ [CHR 34] @ ''--'' @ [CHR 34] @ l2 @ [CHR 34] @ '' ['' @ ''weight='' @ w
       @ '',style='' @ s @ ''];'' @ [CHR 10]"
| "render (SubgraphOpen i) = ''subgraph id_'' @ str_int i @ '' {'' @ [CHR 10]"
| "render ClusterTrue = ''cluster=true;'' @ [CHR 10]"
| "render (Member l) = [CHR 34] @ l @ [CHR 34] @ '';'' @ [CHR 10]"
| "render BlockClose = ''}'' @ [CHR 10]"

text \<open>A line of the output names an entity by its label or, for a cluster, by its id.\<close>

fun mentions :: "entity \<Rightarrow> stmt \<Rightarrow> bool" where
  "mentions n (NodeStmt l c) = (l = label_of n)"
| "mentions n (EdgeStmt l1 l2 w s) = (l1 = label_of n \<or> l2 = label_of n)"
| "mentions n (Member l) = (l = label_of n)"
| "mentions n (SubgraphOpen i) = (i = eid n)"
| "mentions n _ = False"

section \<open>Entity classifier (lines 72-87)\<close>

definition fill :: "entity \<Rightarrow> string" where
  "fill e =
    (if is_a e ''IfcGroup'' then ''#ff99ff''
     else if is_a e ''IfcSpatialElement'' then ''#ff99cc''
     else if is_a e ''IfcElementAssembly'' then ''#ccff99''
     else if is_a e ''IfcOpeningElement'' then ''#cc99ff''
     else if is_a e ''IfcDoor'' \<or> is_a e ''IfcWindow'' then ''#99ccff''
     else if is_a e ''IfcElement'' then ''#9999ff''
     else if is_a e ''IfcStructuralItem'' then ''#99ff99''
     else ''#ff9999'')"

section \<open>Node pass (lines 61-95)\<close>

text \<open>
  The state of the loop is the dictionary \<open>ifc_objects\<close> and the lines written so far.
  The label written at lines 89-95 is read back from the dictionary entry stored at
  line 65 of the same iteration, hence it is the label just built.
\<close>

fun node_loop ::
  "int set \<Rightarrow> entity list \<Rightarrow> (int \<rightharpoonup> string) \<times> stmt list \<Rightarrow> (int \<rightharpoonup> string) \<times> stmt list" where
  "node_loop interest [] st = st"
| "node_loop interest (ifc_object # rest) (ifc_objects, out) =
    (if is_a ifc_object ''IfcVirtualElement'' then node_loop interest rest (ifc_objects, out)
     else
       let ifc_objects' = ifc_objects(eid ifc_object \<mapsto> label_of ifc_object) in
       if interest \<noteq> {} \<and> eid ifc_object \<notin> interest then node_loop interest rest (ifc_objects', out)
       else node_loop interest rest
              (ifc_objects', out @ [NodeStmt (label_of ifc_object) (fill ifc_object)]))"

section \<open>Relationship decomposer (lines 99-138)\<close>

text \<open>
  The four local variables \<open>relating_object\<close>, \<open>related_objects\<close>, \<open>weight\<close>,
  \<open>style\<close>.  The nine \<open>if\<close> statements are independent (no \<open>elif\<close>): each one
  that matches overwrites the two objects, and the weight and the style only where
  its body assigns them.  A related attribute is either a tuple attribute or a single
  attribute wrapped in a one-element list.
\<close>

type_synonym shape = "entity option \<times> entity option list \<times> string \<times> string"

datatype related_attr = Tuple_attr string | Single_attr string

definition read_related :: "entity \<Rightarrow> related_attr \<Rightarrow> error + entity option list" where
  "read_related r b =
    (case b of
       Tuple_attr n \<Rightarrow> (case getattr_seq r n of Inl e \<Rightarrow> Inl e | Inr xs \<Rightarrow> Inr (map Some xs))
     | Single_attr n \<Rightarrow> (case getattr r n of Inl e \<Rightarrow> Inl e | Inr x \<Rightarrow> Inr [x]))"

type_synonym branch = "string \<times> string \<times> related_attr \<times> string option \<times> string option"

fun rel_branch :: "entity \<Rightarrow> branch \<Rightarrow> shape \<Rightarrow> error + shape" where
  "rel_branch ifc_rel (kind, relating_attr, related, set_weight, set_style)
      (relating_object, related_objects, weight, style) =
    (if is_a ifc_rel kind then
       (case getattr ifc_rel relating_attr of
          Inl e \<Rightarrow> Inl e
        | Inr a \<Rightarrow>
            (case read_related ifc_rel related of
               Inl e \<Rightarrow> Inl e
             | Inr bs \<Rightarrow>
                 Inr (a, bs,
                      (case set_weight of None \<Rightarrow> weight | Some w \<Rightarrow> w),
                      (case set_style of None \<Rightarrow> style | Some s \<Rightarrow> s))))
     else Inr (relating_object, related_objects, weight, style))"

definition branches :: "branch list" where
  "branches =
    [(''IfcRelAggregates'', ''RelatingObject'', Tuple_attr ''RelatedObjects'', Some ''9'', None),
     (''IfcRelNests'', ''RelatingObject'', Tuple_attr ''RelatedObjects'', Some ''9'', None),
     (''IfcRelAssignsToGroup'', ''RelatingGroup'', Tuple_attr ''RelatedObjects'', None, None),
     (''IfcRelConnectsElements'', ''RelatingElement'', Single_attr ''RelatedElement'',
        Some ''9'', Some ''dashed''),
     (''IfcRelConnectsStructuralMember'', ''RelatingStructuralMember'',
        Single_attr ''RelatedStructuralConnection'', None, None),
     (''IfcRelContainedInSpatialStructure'', ''RelatingStructure'',
        Tuple_attr ''RelatedElements'', None, None),
     (''IfcRelFillsElement'', ''RelatingOpeningElement'', Single_attr ''RelatedBuildingElement'',
        Some ''9'', None),
     (''IfcRelVoidsElement'', ''RelatingBuildingElement'', Single_attr ''RelatedOpeningElement'',
        Some ''9'', None),
     (''IfcRelSpaceBoundary'', ''RelatingSpace'', Single_attr ''RelatedBuildingElement'',
        Some ''9'', Some ''dotted'')]"

fun run_branches :: "entity \<Rightarrow> branch list \<Rightarrow> shape \<Rightarrow> error + shape" where
  "run_branches ifc_rel [] st = Inr st"
| "run_branches ifc_rel (b # bs) st =
    (case rel_branch ifc_rel b st of Inl e \<Rightarrow> Inl e | Inr st' \<Rightarrow> run_branches ifc_rel bs st')"

definition decompose :: "entity \<Rightarrow> error + shape" where
  "decompose ifc_rel = run_branches ifc_rel branches (None, [], ''1'', ''solid'')"

section \<open>Edge pass with the interest filter (lines 97, 140-179)\<close>

text \<open>
  One iteration of the loop at line 140.  \<open>relating_object.id()\<close> fails on \<open>None\<close>;
  the second operand of \<open>and\<close> is evaluated only when the first holds.  The membership
  test and the later dictionary read are one lookup here.
\<close>

fun edge_step ::
  "(int \<rightharpoonup> string) \<Rightarrow> int set \<Rightarrow> entity option \<Rightarrow> string \<Rightarrow> string \<Rightarrow> entity option
     \<Rightarrow> stmt list \<times> int set \<Rightarrow> error + stmt list \<times> int set" where
  "edge_step ifc_objects interest relating_object weight style related_object (out, new_interest) =
    (case relating_object of
       None \<Rightarrow> Inl AttributeError
     | Some a \<Rightarrow>
        (case ifc_objects (eid a) of
           None \<Rightarrow> Inr (out, new_interest)
         | Some la \<Rightarrow>
            (case related_object of
               None \<Rightarrow> Inl AttributeError
             | Some b \<Rightarrow>
                (case ifc_objects (eid b) of
                   None \<Rightarrow> Inr (out, new_interest)
                 | Some lb \<Rightarrow>
                    if interest \<noteq> {} \<and> eid a \<notin> interest \<and> eid b \<notin> interest
                      then Inr (out, new_interest)
                    else if interest \<noteq> {} \<and> eid a \<in> interest \<and> eid b \<notin> interest
                      then Inr (out, insert (eid b) new_interest)
                    else if interest \<noteq> {} \<and> eid b \<in> interest \<and> eid a \<notin> interest
                      then Inr (out, insert (eid a) new_interest)
                    else Inr (out @ [EdgeStmt la lb weight style], new_interest)))))"

fun edge_loop ::
  "(int \<rightharpoonup> string) \<Rightarrow> int set \<Rightarrow> entity option \<Rightarrow> string \<Rightarrow> string \<Rightarrow> entity option list
     \<Rightarrow> stmt list \<times> int set \<Rightarrow> error + stmt list \<times> int set" where
  "edge_loop ifc_objects interest relating_object weight style [] st = Inr st"
| "edge_loop ifc_objects interest relating_object weight style (related_object # rest) st =
    (case edge_step ifc_objects interest relating_object weight style related_object st of
       Inl e \<Rightarrow> Inl e
     | Inr st' \<Rightarrow> edge_loop ifc_objects interest relating_object weight style rest st')"

fun rel_loop ::
  "(int \<rightharpoonup> string) \<Rightarrow> int set \<Rightarrow> entity list \<Rightarrow> stmt list \<times> int set
     \<Rightarrow> error + stmt list \<times> int set" where
  "rel_loop ifc_objects interest [] st = Inr st"
| "rel_loop ifc_objects interest (ifc_rel # rest) st =
    (case decompose ifc_rel of
       Inl e \<Rightarrow> Inl e
     | Inr (relating_object, related_objects, weight, style) \<Rightarrow>
        (case edge_loop ifc_objects interest relating_object weight style related_objects st of
           Inl e \<Rightarrow> Inl e
         | Inr st' \<Rightarrow> rel_loop ifc_objects interest rest st'))"

section \<open>Cluster emitter (lines 189-208)\<close>

text \<open>
  \<open>cluster\<close> calls itself on the children that the external decomposition query
  returns, so nothing in the program bounds the depth of the recursion.  The first
  argument is the number of nested calls that the interpreter still allows: entering
  a call with none left is Python's \<open>RecursionError\<close>.  The result is the list of
  lines written by the call.  \<open>ifc_objects[...]\<close> at lines 199 and 206 is an unguarded
  dictionary read, hence a \<open>KeyError\<close> for a missing key.
\<close>

fun cluster ::
    "nat \<Rightarrow> ifc_file \<Rightarrow> (int \<rightharpoonup> string) \<Rightarrow> int set \<Rightarrow> entity \<Rightarrow> error + stmt list"
  and cluster_children ::
    "nat \<Rightarrow> ifc_file \<Rightarrow> (int \<rightharpoonup> string) \<Rightarrow> int set \<Rightarrow> entity list \<Rightarrow> error + stmt list" where
  "cluster 0 f ifc_objects interest ifc_object = Inl RecursionError"
| "cluster (Suc depth) f ifc_objects interest ifc_object =
    (if is_a ifc_object ''IfcVirtualElement'' then Inr []
     else if interest \<noteq> {} \<and> eid ifc_object \<notin> interest then Inr []
     else
       let children = get_decomposition f ifc_object in
       if children \<noteq> [] then
         (case ifc_objects (eid ifc_object) of
            None \<Rightarrow> Inl (KeyError (eid ifc_object))
          | Some l \<Rightarrow>
             (case cluster_children depth f ifc_objects interest children of
                Inl e \<Rightarrow> Inl e
              | Inr body \<Rightarrow>
                  Inr ([SubgraphOpen (eid ifc_object), ClusterTrue, Member l] @ body @ [BlockClose])))
       else Inr [])"
| "cluster_children depth f ifc_objects interest [] = Inr []"
| "cluster_children depth f ifc_objects interest (child # rest) =
    (if is_a child ''IfcVirtualElement'' then cluster_children depth f ifc_objects interest rest
     else if interest \<noteq> {} \<and> eid child \<notin> interest
       then cluster_children depth f ifc_objects interest rest
     else
       (case ifc_objects (eid child) of
          None \<Rightarrow> Inl (KeyError (eid child))
        | Some l \<Rightarrow>
           (case cluster depth f ifc_objects interest child of
              Inl e \<Rightarrow> Inl e
            | Inr sub \<Rightarrow>
               (case cluster_children depth f ifc_objects interest rest of
                  Inl e \<Rightarrow> Inl e
                | Inr others \<Rightarrow> Inr (Member l # sub @ others)))))"

fun site_loop ::
  "nat \<Rightarrow> ifc_file \<Rightarrow> (int \<rightharpoonup> string) \<Rightarrow> int set \<Rightarrow> entity list \<Rightarrow> error + stmt list" where
  "site_loop depth f ifc_objects interest [] = Inr []"
| "site_loop depth f ifc_objects interest (ifc_object # rest) =
    (case cluster depth f ifc_objects interest ifc_object of
       Inl e \<Rightarrow> Inl e
     | Inr ls \<Rightarrow>
        (case site_loop depth f ifc_objects interest rest of
           Inl e \<Rightarrow> Inl e
         | Inr others \<Rightarrow> Inr (ls @ others)))"

section \<open>Graph builder (lines 24-186)\<close>

text \<open>
  Python sets of ids are sets of integers here, and \<open>interest.copy()\<close> is the same
  value; the sets as mutable objects are the subject of the next section.  The first
  argument is the number of nested calls of \<open>cluster\<close> that the interpreter allows.
  The result is the list of lines written to the file and the returned
  \<open>new_interest\<close>, or the exception that ended the call.
\<close>

definition write_dot :: "nat \<Rightarrow> ifc_file \<Rightarrow> int set \<Rightarrow> error + stmt list \<times> int set" where
  "write_dot depth ifc_file interest =
    (let new_interest = interest;
         (ifc_objects, out) =
            node_loop interest (by_type ifc_file ''IfcObject'') (Map.empty, [GraphOpen, GraphAttrs])
     in case rel_loop ifc_objects interest (by_type ifc_file ''IfcRelationship'') (out, new_interest) of
          Inl e \<Rightarrow> Inl e
        | Inr (out', new_interest') \<Rightarrow>
           (case site_loop depth ifc_file ifc_objects interest (by_type ifc_file ''IfcSite'') of
              Inl e \<Rightarrow> Inl e
            | Inr ls \<Rightarrow> Inr (out' @ ls @ [BlockClose], new_interest')))"

text \<open>
  The dictionary \<open>ifc_objects\<close> as it stands after the node pass of a call of
  \<open>write_dot\<close>.
\<close>

definition ifc_objects_of :: "ifc_file \<Rightarrow> int set \<Rightarrow> (int \<rightharpoonup> string)" where
  "ifc_objects_of f interest =
     fst (node_loop interest (by_type f ''IfcObject'') (Map.empty, [GraphOpen, GraphAttrs]))"

section \<open>The interest sets as objects\<close>

text \<open>
  A Python set is a mutable object and \<open>write_dot\<close> receives a reference to the
  caller's set.  The store lists the set objects; a reference is an index into it.
  \<open>interest.copy()\<close> (line 55) allocates a new object with the same elements and
  \<open>new_interest.add(x)\<close> (lines 156, 162) updates an object in place.  The edge pass
  is the only part of \<open>write_dot\<close> that writes to a set, so it is the part that is
  modelled again over the store: every membership test reads the object that
  \<open>interest\<close> refers to at that moment.
\<close>

type_synonym store = "int set list"

definition set_copy :: "store \<Rightarrow> nat \<Rightarrow> store \<times> nat" where
  "set_copy h p = (h @ [h ! p], length h)"

definition set_add :: "store \<Rightarrow> nat \<Rightarrow> int \<Rightarrow> store" where
  "set_add h q x = h[q := insert x (h ! q)]"

fun edge_step_refs ::
  "(int \<rightharpoonup> string) \<Rightarrow> nat \<Rightarrow> nat \<Rightarrow> entity option \<Rightarrow> string \<Rightarrow> string \<Rightarrow> entity option
     \<Rightarrow> stmt list \<times> store \<Rightarrow> error + stmt list \<times> store" where
  "edge_step_refs ifc_objects interest new_interest relating_object weight style related_object (out, h) =
    (case relating_object of
       None \<Rightarrow> Inl AttributeError
     | Some a \<Rightarrow>
        (case ifc_objects (eid a) of
           None \<Rightarrow> Inr (out, h)
         | Some la \<Rightarrow>
            (case related_object of
               None \<Rightarrow> Inl AttributeError
             | Some b \<Rightarrow>
                (case ifc_objects (eid b) of
                   None \<Rightarrow> Inr (out, h)
                 | Some lb \<Rightarrow>
                    if h ! interest \<noteq> {} \<and> eid a \<notin> h ! interest \<and> eid b \<notin> h ! interest
                      then Inr (out, h)
                    else if h ! interest \<noteq> {} \<and> eid a \<in> h ! interest \<and> eid b \<notin> h ! interest
                      then Inr (out, set_add h new_interest (eid b))
                    else if h ! interest \<noteq> {} \<and> eid b \<in> h ! interest \<and> eid a \<notin> h ! interest
                      then Inr (out, set_add h new_interest (eid a))
                    else Inr (out @ [EdgeStmt la lb weight style], h)))))"

fun edge_loop_refs ::
  "(int \<rightharpoonup> string) \<Rightarrow> nat \<Rightarrow> nat \<Rightarrow> entity option \<Rightarrow> string \<Rightarrow> string \<Rightarrow> entity option list
     \<Rightarrow> stmt list \<times> store \<Rightarrow> error + stmt list \<times> store" where
  "edge_loop_refs ifc_objects interest new_interest relating_object weight style [] st = Inr st"
| "edge_loop_refs ifc_objects interest new_interest relating_object weight style (related_object # rest) st =
    (case edge_step_refs ifc_objects interest new_interest relating_object weight style related_object st of
       Inl e \<Rightarrow> Inl e
     | Inr st' \<Rightarrow> edge_loop_refs ifc_objects interest new_interest relating_object weight style rest st')"

fun rel_loop_refs ::
  "(int \<rightharpoonup> string) \<Rightarrow> nat \<Rightarrow> nat \<Rightarrow> entity list \<Rightarrow> stmt list \<times> store
     \<Rightarrow> error + stmt list \<times> store" where
  "rel_loop_refs ifc_objects interest new_interest [] st = Inr st"
| "rel_loop_refs ifc_objects interest new_interest (ifc_rel # rest) st =
    (case decompose ifc_rel of
       Inl e \<Rightarrow> Inl e
     | Inr (relating_object, related_objects, weight, style) \<Rightarrow>
        (case edge_loop_refs ifc_objects interest new_interest relating_object weight style
                related_objects st of
           Inl e \<Rightarrow> Inl e
         | Inr st' \<Rightarrow> rel_loop_refs ifc_objects interest new_interest rest st'))"

text \<open>
  \<open>write_dot\<close> over the store: the argument is the reference to the caller's set, the
  result holds the returned reference and the store at the return.
\<close>

definition write_dot_refs ::
  "nat \<Rightarrow> ifc_file \<Rightarrow> store \<Rightarrow> nat \<Rightarrow> error + stmt list \<times> nat \<times> store" where
  "write_dot_refs depth ifc_file h interest =
    (let (h1, new_interest) = set_copy h interest;
         (ifc_objects, out) =
            node_loop (h1 ! interest) (by_type ifc_file ''IfcObject'') (Map.empty, [GraphOpen, GraphAttrs])
     in case rel_loop_refs ifc_objects interest new_interest (by_type ifc_file ''IfcRelationship'')
               (out, h1) of
          Inl e \<Rightarrow> Inl e
        | Inr (out', h2) \<Rightarrow>
           (case site_loop depth ifc_file ifc_objects (h2 ! interest) (by_type ifc_file ''IfcSite'') of
              Inl e \<Rightarrow> Inl e
            | Inr ls \<Rightarrow> Inr (out' @ ls @ [BlockClose], new_interest, h2)))"

section \<open>The classifier as the specification words it\<close>

text \<open>
  An ordered list of (predicate, category) pairs, evaluated until the first match, with a
  default for everything else.
\<close>

definition classify_rules :: "((entity \<Rightarrow> bool) \<times> string) list" where
  "classify_rules =
    [(\<lambda>e. is_a e ''IfcGroup'', ''#ff99ff''),
     (\<lambda>e. is_a e ''IfcSpatialElement'', ''#ff99cc''),
     (\<lambda>e. is_a e ''IfcElementAssembly'', ''#ccff99''),
     (\<lambda>e. is_a e ''IfcOpeningElement'', ''#cc99ff''),
     (\<lambda>e. is_a e ''IfcDoor'' \<or> is_a e ''IfcWindow'', ''#99ccff''),
     (\<lambda>e. is_a e ''IfcElement'', ''#9999ff''),
     (\<lambda>e. is_a e ''IfcStructuralItem'', ''#99ff99'')]"

fun first_match :: "(('a \<Rightarrow> bool) \<times> 'b) list \<Rightarrow> 'b \<Rightarrow> 'a \<Rightarrow> 'b" where
  "first_match [] d x = d"
| "first_match ((p, c) # rs) d x = (if p x then c else first_match rs d x)"

section \<open>The decomposer as the specification tabulates it\<close>




section \<open>Full expansion, as the specification words it\<close>

text \<open>
  The caller's loop of the docstring (lines 44-51): call \<open>write_dot\<close> again with the
  returned set as the interest set, until the returned set is the one passed in; the
  result is that of the final call.  The first argument bounds the number of calls,
  and \<open>None\<close> says that the bound was reached before the set stopped growing.
\<close>

fun expand :: "nat \<Rightarrow> nat \<Rightarrow> ifc_file \<Rightarrow> int set \<Rightarrow> (error + stmt list \<times> int set) option" where
  "expand 0 depth f interest = None"
| "expand (Suc n) depth f interest =
    (case write_dot depth f interest of
       Inl e \<Rightarrow> Some (Inl e)
     | Inr (out, new_interest) \<Rightarrow>
         if new_interest = interest then Some (Inr (out, new_interest))
         else expand n depth f new_interest)"

text \<open>
  The node and edge lines of an output; the graph on labels that its edge lines draw;
  the labels weakly connected to a set of labels in that graph; the node and edge lines
  of an output that lie within a set of labels; the labels of a set of ids.
\<close>

fun is_graph_line :: "stmt \<Rightarrow> bool" where
  "is_graph_line (NodeStmt l c) = True"
| "is_graph_line (EdgeStmt l1 l2 w s) = True"
| "is_graph_line _ = False"

definition graph_lines :: "stmt list \<Rightarrow> stmt set" where
  "graph_lines out = {s \<in> set out. is_graph_line s}"

definition edge_graph :: "stmt list \<Rightarrow> (string \<times> string) set" where
  "edge_graph out = {(l1, l2). \<exists>w s. EdgeStmt l1 l2 w s \<in> set out}"

definition component :: "stmt list \<Rightarrow> string set \<Rightarrow> string set" where
  "component out S = (edge_graph out \<union> (edge_graph out)\<inverse>)\<^sup>* `` S"

fun within :: "string set \<Rightarrow> stmt \<Rightarrow> bool" where
  "within R (NodeStmt l c) = (l \<in> R)"
| "within R (EdgeStmt l1 l2 w s) = (l1 \<in> R \<and> l2 \<in> R)"
| "within R _ = False"

definition restrict_to :: "stmt list \<Rightarrow> string set \<Rightarrow> stmt set" where
  "restrict_to out R = {s \<in> set out. within R s}"

definition interest_labels :: "ifc_file \<Rightarrow> int set \<Rightarrow> string set" where
  "interest_labels f interest = {l. \<exists>i \<in> interest. ifc_objects_of f {} i = Some l}"

section \<open>What the passes compute: definitions for the proofs\<close>

text \<open>
  Closed forms of the loops, used in the proofs: the registry after the node pass, the
  node lines, the edge candidates with both endpoints registered (relating id, related
  id and the edge line), the candidates that the interest filter keeps and the ids
  that it adds to next-interest.
\<close>

fun register :: "entity list \<Rightarrow> (int \<rightharpoonup> string) \<Rightarrow> (int \<rightharpoonup> string)" where
  "register [] reg = reg"
| "register (e # es) reg =
    (if is_a e ''IfcVirtualElement'' then register es reg
     else register es (reg(eid e \<mapsto> label_of e)))"

definition shown :: "int set \<Rightarrow> entity \<Rightarrow> bool" where
  "shown interest e \<longleftrightarrow> \<not> is_a e ''IfcVirtualElement'' \<and> (interest = {} \<or> eid e \<in> interest)"

definition node_lines :: "int set \<Rightarrow> entity list \<Rightarrow> stmt list" where
  "node_lines interest es = map (\<lambda>e. NodeStmt (label_of e) (fill e)) (filter (shown interest) es)"

type_synonym cand = "int \<times> int \<times> stmt"

fun cand_step ::
  "(int \<rightharpoonup> string) \<Rightarrow> entity option \<Rightarrow> string \<Rightarrow> string \<Rightarrow> entity option \<Rightarrow> error + cand list" where
  "cand_step reg relating w s related =
    (case relating of
       None \<Rightarrow> Inl AttributeError
     | Some a \<Rightarrow>
        (case reg (eid a) of
           None \<Rightarrow> Inr []
         | Some la \<Rightarrow>
            (case related of
               None \<Rightarrow> Inl AttributeError
             | Some b \<Rightarrow>
                (case reg (eid b) of
                   None \<Rightarrow> Inr []
                 | Some lb \<Rightarrow> Inr [(eid a, eid b, EdgeStmt la lb w s)]))))"

fun cand_loop ::
  "(int \<rightharpoonup> string) \<Rightarrow> entity option \<Rightarrow> string \<Rightarrow> string \<Rightarrow> entity option list
     \<Rightarrow> error + cand list" where
  "cand_loop reg relating w s [] = Inr []"
| "cand_loop reg relating w s (x # xs) =
    (case cand_step reg relating w s x of
       Inl e \<Rightarrow> Inl e
     | Inr c \<Rightarrow>
        (case cand_loop reg relating w s xs of Inl e \<Rightarrow> Inl e | Inr cs \<Rightarrow> Inr (c @ cs)))"

fun candidates :: "(int \<rightharpoonup> string) \<Rightarrow> entity list \<Rightarrow> error + cand list" where
  "candidates reg [] = Inr []"
| "candidates reg (r # rs) =
    (case decompose r of
       Inl e \<Rightarrow> Inl e
     | Inr (relating, related, w, s) \<Rightarrow>
        (case cand_loop reg relating w s related of
           Inl e \<Rightarrow> Inl e
         | Inr c \<Rightarrow>
            (case candidates reg rs of Inl e \<Rightarrow> Inl e | Inr cs \<Rightarrow> Inr (c @ cs))))"

definition kept :: "int set \<Rightarrow> cand list \<Rightarrow> stmt list" where
  "kept interest ps =
     map (\<lambda>(a, b, l). l) (filter (\<lambda>(a, b, l). interest = {} \<or> (a \<in> interest \<and> b \<in> interest)) ps)"

definition frontier :: "int set \<Rightarrow> cand list \<Rightarrow> int set" where
  "frontier interest ps =
     {x. interest \<noteq> {} \<and>
         (\<exists>(a, b, l) \<in> set ps. (a \<in> interest \<and> b \<notin> interest \<and> x = b)
                              \<or> (b \<in> interest \<and> a \<notin> interest \<and> x = a))}"

text \<open>The lines that the cluster emitter may write, given the registry.\<close>

fun cluster_line :: "(int \<rightharpoonup> string) \<Rightarrow> stmt \<Rightarrow> bool" where
  "cluster_line reg (SubgraphOpen i) = (i \<in> dom reg)"
| "cluster_line reg (Member l) = (l \<in> ran reg)"
| "cluster_line reg ClusterTrue = True"
| "cluster_line reg BlockClose = True"
| "cluster_line reg _ = False"

text \<open>For the proofs: the graph on ids of the registered candidates, and what it connects.\<close>

definition id_edges :: "cand list \<Rightarrow> (int \<times> int) set" where
  "id_edges ps = {(a, b). \<exists>l. (a, b, l) \<in> set ps}"

definition reach :: "cand list \<Rightarrow> int set \<Rightarrow> int set" where
  "reach ps I = (id_edges ps \<union> (id_edges ps)\<inverse>)\<^sup>* `` I"

section \<open>A small model used to instantiate the theorems\<close>

text \<open>
  The scenario of the specification, a node \<open>#1\<close> aggregated from a node \<open>#2\<close>, with a
  virtual element beside them; \<open>#1\<close> is a site, so that the cluster pass has a root.
\<close>

definition ex_site :: entity where
  "ex_site = Entity 1 ''IfcSite''
     [''IfcSpatialStructureElement'', ''IfcSpatialElement'', ''IfcProduct'', ''IfcObject''] [] []"

definition ex_wall :: entity where
  "ex_wall = Entity 2 ''IfcWall'' [''IfcBuildingElement'', ''IfcElement'', ''IfcProduct'', ''IfcObject''] [] []"

definition ex_virtual :: entity where
  "ex_virtual = Entity 3 ''IfcVirtualElement'' [''IfcElement'', ''IfcProduct'', ''IfcObject''] [] []"

definition ex_door :: entity where
  "ex_door = Entity 7 ''IfcDoor'' [''IfcBuildingElement'', ''IfcElement'', ''IfcProduct'', ''IfcObject''] [] []"

definition ex_rel :: entity where
  "ex_rel = Entity 10 ''IfcRelAggregates'' [''IfcRelDecomposes'', ''IfcRelationship'']
     [(''RelatingObject'', Some ex_site)] [(''RelatedObjects'', [ex_wall])]"

definition ex_file :: ifc_file where
  "ex_file = \<lparr> instances = [ex_site, ex_wall, ex_virtual, ex_rel],
               get_decomposition = (\<lambda>e. if e = ex_site then [ex_wall, ex_virtual] else []) \<rparr>"

definition ex_registry :: "int \<rightharpoonup> string" where
  "ex_registry = [1 \<mapsto> ''#1=IfcSite'', 2 \<mapsto> ''#2=IfcWall'']"

text \<open>
  A file in which a site is aggregated from an instance that is not an \<open>IfcObject\<close>
  (the schema types the parts of an aggregation as \<open>IfcObjectDefinition\<close>, which
  includes the type objects).
\<close>

definition ex_wall_type :: entity where
  "ex_wall_type = Entity 5 ''IfcWallType''
     [''IfcBuildingElementType'', ''IfcElementType'', ''IfcTypeProduct'', ''IfcTypeObject''] [] []"

definition ex_rel_type :: entity where
  "ex_rel_type = Entity 11 ''IfcRelAggregates'' [''IfcRelDecomposes'', ''IfcRelationship'']
     [(''RelatingObject'', Some ex_site)] [(''RelatedObjects'', [ex_wall_type])]"

definition ex_type_file :: ifc_file where
  "ex_type_file = \<lparr> instances = [ex_site, ex_wall_type, ex_rel_type],
                    get_decomposition = (\<lambda>e. if e = ex_site then [ex_wall_type] else []) \<rparr>"


section \<open>Properties\<close>

subsection \<open>Entity classifier\<close>

text \<open>
  C5.  The classifier of lines 72-87 is the first-match evaluation of the ordered rules
  Group, SpatialElement, ElementAssembly, OpeningElement, Door-or-Window, Element,
  StructuralItem with the default colour for everything else; it is a total function
  with no failing branch.  An entity that is a door or a window and an element never
  gets the colour of the general element category, and it gets the door/window colour
  whenever none of the four rules before that one matches (in the IFC schema a door or
  a window is none of a group, a spatial element, an element assembly or an opening).
\<close>

theorem classifier_first_match:
  "fill e = first_match classify_rules ''#ff9999'' e
   \<and> ((is_a e ''IfcDoor'' \<or> is_a e ''IfcWindow'') \<and> is_a e ''IfcElement'' \<longrightarrow> fill e \<noteq> ''#9999ff'')
   \<and> ((is_a e ''IfcDoor'' \<or> is_a e ''IfcWindow'') \<and> is_a e ''IfcElement''
        \<and> \<not> is_a e ''IfcGroup'' \<and> \<not> is_a e ''IfcSpatialElement''
        \<and> \<not> is_a e ''IfcElementAssembly'' \<and> \<not> is_a e ''IfcOpeningElement''
      \<longrightarrow> fill e = ''#99ccff'')"
  by (simp add: fill_def classify_rules_def)

theorem classifier_first_match_witness:
  "is_a ex_door ''IfcDoor'' \<and> is_a ex_door ''IfcElement'' \<and> \<not> is_a ex_door ''IfcGroup''
   \<and> \<not> is_a ex_door ''IfcSpatialElement'' \<and> \<not> is_a ex_door ''IfcElementAssembly''
   \<and> \<not> is_a ex_door ''IfcOpeningElement''
   \<and> fill ex_door = ''#99ccff'' \<and> fill ex_door \<noteq> ''#9999ff''
   \<and> fill ex_door = first_match classify_rules ''#ff9999'' ex_door"
proof -
  have h: "is_a ex_door ''IfcDoor'' \<and> is_a ex_door ''IfcElement'' \<and> \<not> is_a ex_door ''IfcGroup''
      \<and> \<not> is_a ex_door ''IfcSpatialElement'' \<and> \<not> is_a ex_door ''IfcElementAssembly''
      \<and> \<not> is_a ex_door ''IfcOpeningElement''"
    by (simp add: is_a_def ex_door_def)
  with classifier_first_match [of ex_door] show ?thesis
    by blast
qed

subsection \<open>Interest filter: one iteration\<close>

text \<open>
  One iteration of the loop of line 140 on a candidate whose two endpoints are keys of
  the registry, case by case.
\<close>

lemma edge_step_cases:
  assumes "ifc_objects (eid a) = Some la" and "ifc_objects (eid b) = Some lb"
  shows "interest = {} \<Longrightarrow>
            edge_step ifc_objects interest (Some a) w s (Some b) (out, ni)
              = Inr (out @ [EdgeStmt la lb w s], ni)"
    and "interest \<noteq> {} \<and> eid a \<notin> interest \<and> eid b \<notin> interest \<Longrightarrow>
            edge_step ifc_objects interest (Some a) w s (Some b) (out, ni) = Inr (out, ni)"
    and "eid a \<in> interest \<and> eid b \<notin> interest \<Longrightarrow>
            edge_step ifc_objects interest (Some a) w s (Some b) (out, ni)
              = Inr (out, insert (eid b) ni)"
    and "eid b \<in> interest \<and> eid a \<notin> interest \<Longrightarrow>
            edge_step ifc_objects interest (Some a) w s (Some b) (out, ni)
              = Inr (out, insert (eid a) ni)"
    and "eid a \<in> interest \<and> eid b \<in> interest \<Longrightarrow>
            edge_step ifc_objects interest (Some a) w s (Some b) (out, ni)
              = Inr (out @ [EdgeStmt la lb w s], ni)"
  using assms by auto

subsection \<open>Labels determine ids\<close>

text \<open>
  Python's decimal rendering of an integer is injective and contains no \<open>=\<close>, so a
  label determines the id and the class name it was built from.
\<close>

lemma digit_char_inj: "a < 10 \<Longrightarrow> b < 10 \<Longrightarrow> digit_char a = digit_char b \<Longrightarrow> a = b"
proof -
  assume "a < 10" "b < 10" "digit_char a = digit_char b"
  moreover have "a < 10 \<Longrightarrow> a \<in> {0,1,2,3,4,5,6,7,8,9}" by auto
  moreover have "b < 10 \<Longrightarrow> b \<in> {0,1,2,3,4,5,6,7,8,9}" by auto
  ultimately show ?thesis
    by (auto simp: digit_char_def)
qed

lemma str_nat_nonempty: "str_nat n \<noteq> []" "[] \<noteq> str_nat n"
  by (subst str_nat.simps, simp)+

lemma str_nat_inj: "str_nat n = str_nat m \<Longrightarrow> n = m"
proof (induction n arbitrary: m rule: str_nat.induct)
  case (1 n)
  show ?case
  proof (cases "n < 10")
    case True
    show ?thesis
    proof (cases "m < 10")
      case mT: True
      with True "1.prems" show ?thesis
        by (simp add: str_nat.simps [of n] str_nat.simps [of m] digit_char_inj)
    next
      case False
      with True "1.prems" show ?thesis
        by (simp add: str_nat.simps [of n] str_nat.simps [of m] str_nat_nonempty)
    qed
  next
    case False
    show ?thesis
    proof (cases "m < 10")
      case True
      with False "1.prems" show ?thesis
        by (simp add: str_nat.simps [of n] str_nat.simps [of m] str_nat_nonempty)
    next
      case mF: False
      with False "1.prems" have e: "str_nat (n div 10) = str_nat (m div 10)"
        and d: "digit_char (n mod 10) = digit_char (m mod 10)"
        by (simp_all add: str_nat.simps [of n] str_nat.simps [of m])
      from "1.IH" [OF False e] have "n div 10 = m div 10" .
      moreover from d have "n mod 10 = m mod 10"
        by (rule digit_char_inj [rotated 2]) simp_all
      ultimately show ?thesis
        by (metis div_mult_mod_eq)
    qed
  qed
qed

lemma digit_char_not: "k < 10 \<Longrightarrow> digit_char k \<noteq> CHR ''='' \<and> digit_char k \<noteq> CHR ''-''"
proof -
  assume "k < 10"
  then have "k \<in> {0,1,2,3,4,5,6,7,8,9}" by auto
  then show ?thesis by (auto simp: digit_char_def)
qed

lemma str_nat_chars: "c \<in> set (str_nat n) \<Longrightarrow> c \<noteq> CHR ''='' \<and> c \<noteq> CHR ''-''"
proof (induction n rule: str_nat.induct)
  case (1 n)
  show ?case
  proof (cases "n < 10")
    case True
    with "1.prems" show ?thesis
      using digit_char_not [of n] by (simp add: str_nat.simps [of n])
  next
    case False
    with "1.prems" "1.IH" show ?thesis
      using digit_char_not [of "n mod 10"] by (auto simp add: str_nat.simps [of n])
  qed
qed

lemma str_int_inj: "str_int i = str_int j \<Longrightarrow> i = j"
proof -
  assume a: "str_int i = str_int j"
  then have h: "hd (str_int i) = hd (str_int j)" by simp
  have hd_nat: "\<And>n. hd (str_nat n) \<noteq> CHR ''-''"
    using str_nat_chars str_nat_nonempty(1) by (metis hd_in_set)
  show ?thesis
  proof (cases "i < 0")
    case True
    show ?thesis
    proof (cases "j < 0")
      case jT: True
      with True a have "nat (- i) = nat (- j)"
        by (simp add: str_int_def str_nat_inj)
      with True jT show ?thesis by simp
    next
      case False
      with True h have "hd (str_nat (nat j)) = CHR ''-''"
        by (simp add: str_int_def)
      with hd_nat show ?thesis by blast
    qed
  next
    case False
    show ?thesis
    proof (cases "j < 0")
      case True
      with False h have "hd (str_nat (nat i)) = CHR ''-''"
        by (simp add: str_int_def)
      with hd_nat show ?thesis by blast
    next
      case jF: False
      with False a have "nat i = nat j"
        by (simp add: str_int_def str_nat_inj)
      with False jF show ?thesis by simp
    qed
  qed
qed

lemma str_int_no_eq: "CHR ''='' \<notin> set (str_int i)"
  using str_nat_chars by (auto simp: str_int_def)

lemma split_at_sep:
  assumes "c \<notin> set xs" "c \<notin> set ys" "xs @ c # us = ys @ c # vs"
  shows "xs = ys \<and> us = vs"
  using assms
proof (induction xs arbitrary: ys)
  case Nil
  then show ?case by (cases ys) auto
next
  case (Cons x xs)
  then show ?case by (cases ys) auto
qed

lemma label_of_inj: "label_of a = label_of b \<Longrightarrow> eid a = eid b \<and> ety a = ety b"
proof -
  assume "label_of a = label_of b"
  then have "str_int (eid a) @ CHR ''='' # ety a = str_int (eid b) @ CHR ''='' # ety b"
    by (simp add: label_of_def)
  with split_at_sep [OF str_int_no_eq str_int_no_eq] have "str_int (eid a) = str_int (eid b) \<and> ety a = ety b"
    by blast
  then show ?thesis by (auto dest: str_int_inj)
qed

subsection \<open>Closed forms of the node pass and of the edge pass\<close>

lemma node_loop_eq:
  "node_loop interest es (reg, out) = (register es reg, out @ node_lines interest es)"
  by (induction es arbitrary: reg out) (simp_all add: node_lines_def shown_def Let_def)

lemma ifc_objects_of_eq: "ifc_objects_of f interest = register (by_type f ''IfcObject'') Map.empty"
  by (simp add: ifc_objects_of_def node_loop_eq)

lemma register_dom:
  "dom (register es reg) = dom reg \<union> eid ` {e \<in> set es. \<not> is_a e ''IfcVirtualElement''}"
  by (induction es arbitrary: reg) auto

lemma register_value:
  "register es reg i = Some l \<Longrightarrow>
     reg i = Some l \<or> (\<exists>e \<in> set es. \<not> is_a e ''IfcVirtualElement'' \<and> eid e = i \<and> l = label_of e)"
proof (induction es arbitrary: reg)
  case Nil
  then show ?case by simp
next
  case (Cons x xs)
  show ?case
  proof (cases "is_a x ''IfcVirtualElement''")
    case True
    with Cons.prems have "register xs reg i = Some l" by simp
    from Cons.IH [OF this] show ?thesis by auto
  next
    case False
    with Cons.prems have "register xs (reg(eid x \<mapsto> label_of x)) i = Some l" by simp
    from Cons.IH [OF this] False show ?thesis
      by (auto split: if_splits)
  qed
qed

lemma register_keeps:
  "i \<notin> eid ` set es \<Longrightarrow> register es reg i = reg i"
  by (induction es arbitrary: reg) auto

lemma register_distinct:
  "distinct (map eid es) \<Longrightarrow> e \<in> set es \<Longrightarrow> \<not> is_a e ''IfcVirtualElement'' \<Longrightarrow>
     register es reg (eid e) = Some (label_of e)"
proof (induction es arbitrary: reg)
  case Nil
  then show ?case by simp
next
  case (Cons x xs)
  show ?case
  proof (cases "e = x")
    case True
    with Cons.prems show ?thesis by (simp add: register_keeps)
  next
    case False
    with Cons show ?thesis by auto
  qed
qed

lemma kept_append: "kept interest (ps @ qs) = kept interest ps @ kept interest qs"
  by (simp add: kept_def)

lemma frontier_append: "frontier interest (ps @ qs) = frontier interest ps \<union> frontier interest qs"
  by (auto simp: frontier_def)

lemma kept_Nil: "kept interest [] = []"
  by (simp add: kept_def)

lemma frontier_Nil: "frontier interest [] = {}"
  by (simp add: frontier_def)

lemma edge_step_eq:
  "edge_step reg interest relating w s x (out, ni) =
    (case cand_step reg relating w s x of
       Inl e \<Rightarrow> Inl e
     | Inr ps \<Rightarrow> Inr (out @ kept interest ps, ni \<union> frontier interest ps))"
  by (auto simp: kept_def frontier_def split: option.splits)

lemma edge_loop_eq:
  "edge_loop reg interest relating w s xs (out, ni) =
    (case cand_loop reg relating w s xs of
       Inl e \<Rightarrow> Inl e
     | Inr ps \<Rightarrow> Inr (out @ kept interest ps, ni \<union> frontier interest ps))"
proof (induction xs arbitrary: out ni)
  case Nil
  show ?case by (simp add: kept_Nil frontier_Nil)
next
  case (Cons x xs)
  show ?case
    by (cases "cand_step reg relating w s x")
       (simp_all add: edge_step_eq Cons.IH kept_append frontier_append Un_assoc
          del: cand_step.simps edge_step.simps split: sum.splits)
qed

lemma rel_loop_eq:
  "rel_loop reg interest rs (out, ni) =
    (case candidates reg rs of
       Inl e \<Rightarrow> Inl e
     | Inr ps \<Rightarrow> Inr (out @ kept interest ps, ni \<union> frontier interest ps))"
proof (induction rs arbitrary: out ni)
  case Nil
  show ?case by (simp add: kept_Nil frontier_Nil)
next
  case (Cons r rs)
  show ?case
  proof (cases "decompose r")
    case (Inl e)
    then show ?thesis by simp
  next
    case (Inr sh)
    obtain relating related w s where sh: "sh = (relating, related, w, s)"
      by (cases sh) auto
    show ?thesis
      by (cases "cand_loop reg relating w s related")
         (simp_all add: Inr sh edge_loop_eq Cons.IH kept_append frontier_append Un_assoc
            split: sum.splits)
  qed
qed

lemma write_dot_eq:
  "write_dot depth f interest =
    (case candidates (ifc_objects_of f interest) (by_type f ''IfcRelationship'') of
       Inl e \<Rightarrow> Inl e
     | Inr ps \<Rightarrow>
        (case site_loop depth f (ifc_objects_of f interest) interest (by_type f ''IfcSite'') of
           Inl e \<Rightarrow> Inl e
         | Inr ls \<Rightarrow>
            Inr ([GraphOpen, GraphAttrs] @ node_lines interest (by_type f ''IfcObject'')
                   @ kept interest ps @ ls @ [BlockClose],
                 interest \<union> frontier interest ps)))"
  by (simp add: write_dot_def ifc_objects_of_def node_loop_eq rel_loop_eq split: sum.splits)

lemma cand_step_registered:
  "cand_step reg relating w s x = Inr ps \<Longrightarrow> (a, b, l) \<in> set ps \<Longrightarrow>
     \<exists>la lb. reg a = Some la \<and> reg b = Some lb \<and> l = EdgeStmt la lb w s"
  by (auto split: option.splits)

lemma cand_loop_registered:
  "cand_loop reg relating w s xs = Inr ps \<Longrightarrow> (a, b, l) \<in> set ps \<Longrightarrow>
     \<exists>la lb. reg a = Some la \<and> reg b = Some lb \<and> l = EdgeStmt la lb w s"
proof (induction xs arbitrary: ps)
  case Nil
  then show ?case by simp
next
  case (Cons x xs)
  from Cons.prems(1) obtain c cs where c: "cand_step reg relating w s x = Inr c"
    and cs: "cand_loop reg relating w s xs = Inr cs" and ps: "ps = c @ cs"
    by (auto simp del: cand_step.simps split: sum.splits)
  from Cons.prems(2) ps consider "(a, b, l) \<in> set c" | "(a, b, l) \<in> set cs"
    by auto
  then show ?case
  proof cases
    case 1
    from cand_step_registered [OF c 1] show ?thesis .
  next
    case 2
    from Cons.IH [OF cs 2] show ?thesis .
  qed
qed

lemma candidates_registered:
  "candidates reg rs = Inr ps \<Longrightarrow> (a, b, l) \<in> set ps \<Longrightarrow>
     \<exists>la lb w s. reg a = Some la \<and> reg b = Some lb \<and> l = EdgeStmt la lb w s"
proof (induction rs arbitrary: ps)
  case Nil
  then show ?case by simp
next
  case (Cons r rs)
  from Cons.prems(1) obtain relating related w s c cs
    where "decompose r = Inr (relating, related, w, s)"
      and c: "cand_loop reg relating w s related = Inr c"
      and cs: "candidates reg rs = Inr cs" and ps: "ps = c @ cs"
    by (auto split: sum.splits prod.splits)
  from Cons.prems(2) ps consider "(a, b, l) \<in> set c" | "(a, b, l) \<in> set cs"
    by auto
  then show ?case
  proof cases
    case 1
    from cand_loop_registered [OF c 1] show ?thesis by blast
  next
    case 2
    from Cons.IH [OF cs 2] show ?thesis .
  qed
qed

lemma frontier_registered:
  "candidates reg rs = Inr ps \<Longrightarrow> frontier interest ps \<subseteq> dom reg"
  by (fastforce simp: frontier_def dest: candidates_registered)

subsection \<open>The lines of the cluster pass\<close>

lemma cluster_lines:
  "(cluster depth f reg interest e = Inr ls \<longrightarrow> (\<forall>s \<in> set ls. cluster_line reg s))"
  "(cluster_children depth f reg interest es = Inr ls \<longrightarrow> (\<forall>s \<in> set ls. cluster_line reg s))"
proof (induction depth f reg interest e and depth f reg interest es arbitrary: ls and ls
       rule: cluster_cluster_children.induct)
  case (1 f ifc_objects interest ifc_object)
  show ?case by simp
next
  case (2 depth f ifc_objects interest ifc_object)
  then show ?case
    by (auto simp: Let_def ranI split: if_splits option.splits sum.splits)
next
  case (3 depth f ifc_objects interest)
  show ?case by simp
next
  case (4 depth f ifc_objects interest child rest)
  then show ?case
    by (auto simp: ranI split: if_splits option.splits sum.splits)
qed

lemma site_loop_lines:
  "site_loop depth f reg interest es = Inr ls \<Longrightarrow> \<forall>s \<in> set ls. cluster_line reg s"
proof (induction es arbitrary: ls)
  case Nil
  then show ?case by simp
next
  case (Cons e es)
  then show ?case
    using cluster_lines(1) by (fastforce split: sum.splits)
qed

subsection \<open>Runs of the example model\<close>

lemma ex_ids: "eid ex_site = 1" "eid ex_wall = 2" "eid ex_virtual = 3" "eid ex_rel = 10"
  by (simp_all add: ex_site_def ex_wall_def ex_virtual_def ex_rel_def)

lemma ex_distinct: "distinct (map eid (instances ex_file))"
  by (simp add: ex_file_def ex_ids)

lemma ex_run_all:
  "write_dot 5 ex_file {} =
     Inr ([GraphOpen, GraphAttrs, NodeStmt ''#1=IfcSite'' ''#ff99cc'',
           NodeStmt ''#2=IfcWall'' ''#9999ff'',
           EdgeStmt ''#1=IfcSite'' ''#2=IfcWall'' ''9'' ''solid'',
           SubgraphOpen 1, ClusterTrue, Member ''#1=IfcSite'', Member ''#2=IfcWall'',
           BlockClose, BlockClose], {})"
  by code_simp

lemma ex_run_site:
  "write_dot 5 ex_file {1} =
     Inr ([GraphOpen, GraphAttrs, NodeStmt ''#1=IfcSite'' ''#ff99cc'',
           SubgraphOpen 1, ClusterTrue, Member ''#1=IfcSite'', BlockClose, BlockClose], {2, 1})"
  by code_simp

lemma ex_run_both:
  "write_dot 5 ex_file {1, 2} =
     Inr ([GraphOpen, GraphAttrs, NodeStmt ''#1=IfcSite'' ''#ff99cc'',
           NodeStmt ''#2=IfcWall'' ''#9999ff'',
           EdgeStmt ''#1=IfcSite'' ''#2=IfcWall'' ''9'' ''solid'',
           SubgraphOpen 1, ClusterTrue, Member ''#1=IfcSite'', Member ''#2=IfcWall'',
           BlockClose, BlockClose], {1, 2})"
  by code_simp

text \<open>The text of the file written for the interest set \<open>{1}\<close>.\<close>

lemma ex_text:
  "concat (map render [GraphOpen, GraphAttrs, NodeStmt ''#1=IfcSite'' ''#ff99cc'',
           SubgraphOpen 1, ClusterTrue, Member ''#1=IfcSite'', BlockClose, BlockClose]) =
     ''strict graph G {'' @ [CHR 10]
     @ ''graph [overlap=false,splines=true,rankdir=LR];'' @ [CHR 10]
     @ [CHR 34] @ ''#1=IfcSite'' @ [CHR 34] @ '' [color='' @ [CHR 34] @ ''#ff99cc'' @ [CHR 34]
       @ '',style=filled];'' @ [CHR 10]
     @ ''subgraph id_1 {'' @ [CHR 10]
     @ ''cluster=true;'' @ [CHR 10]
     @ [CHR 34] @ ''#1=IfcSite'' @ [CHR 34] @ '';'' @ [CHR 10]
     @ ''}'' @ [CHR 10]
     @ ''}'' @ [CHR 10]"
  by code_simp

subsection \<open>The registry and the ids of the file\<close>

lemma registry_entry:
  "ifc_objects_of f interest i = Some l \<Longrightarrow>
     \<exists>e \<in> set (by_type f ''IfcObject''). \<not> is_a e ''IfcVirtualElement'' \<and> eid e = i \<and> l = label_of e"
  using register_value [of "by_type f ''IfcObject''" Map.empty i l]
  by (simp add: ifc_objects_of_eq)

lemma registry_dom:
  "dom (ifc_objects_of f interest) =
     eid ` {e \<in> set (by_type f ''IfcObject''). \<not> is_a e ''IfcVirtualElement''}"
  by (simp add: ifc_objects_of_eq register_dom)

lemma registry_any_interest: "ifc_objects_of f interest = ifc_objects_of f interest'"
  by (simp add: ifc_objects_of_eq)

lemma by_type_subset: "set (by_type f t) \<subseteq> set (instances f)"
  by (auto simp: by_type_def)

lemma unique_id:
  "distinct (map eid (instances f)) \<Longrightarrow> a \<in> set (instances f) \<Longrightarrow> b \<in> set (instances f) \<Longrightarrow>
     eid a = eid b \<Longrightarrow> a = b"
  by (auto simp: distinct_map dest: inj_onD)

lemma registry_of_object:
  assumes "distinct (map eid (instances f))" and "e \<in> set (by_type f ''IfcObject'')"
    and "\<not> is_a e ''IfcVirtualElement''"
  shows "ifc_objects_of f interest (eid e) = Some (label_of e)"
proof -
  from assms(1) have "distinct (map eid (by_type f ''IfcObject''))"
    by (simp add: by_type_def distinct_map_filter)
  from register_distinct [OF this assms(2,3)] show ?thesis
    by (simp add: ifc_objects_of_eq)
qed

lemma virtual_label_unregistered:
  assumes "distinct (map eid (instances f))" and "n \<in> set (instances f)"
    and "is_a n ''IfcVirtualElement''"
  shows "eid n \<notin> dom (ifc_objects_of f interest)" and "label_of n \<notin> ran (ifc_objects_of f interest)"
proof -
  have no: "\<And>e. e \<in> set (by_type f ''IfcObject'') \<Longrightarrow> \<not> is_a e ''IfcVirtualElement'' \<Longrightarrow>
      eid e \<noteq> eid n"
  proof
    fix e assume e: "e \<in> set (by_type f ''IfcObject'')" "\<not> is_a e ''IfcVirtualElement''"
      and "eid e = eid n"
    with unique_id [OF assms(1) _ assms(2)] by_type_subset have "e = n" by blast
    with e(2) assms(3) show False by simp
  qed
  show "eid n \<notin> dom (ifc_objects_of f interest)"
  proof
    assume "eid n \<in> dom (ifc_objects_of f interest)"
    then obtain e where "e \<in> set (by_type f ''IfcObject'')" "\<not> is_a e ''IfcVirtualElement''"
      "eid e = eid n"
      by (auto simp: registry_dom)
    with no show False by blast
  qed
  show "label_of n \<notin> ran (ifc_objects_of f interest)"
  proof
    assume "label_of n \<in> ran (ifc_objects_of f interest)"
    then obtain i where "ifc_objects_of f interest i = Some (label_of n)"
      by (auto simp: ran_def)
    from registry_entry [OF this] obtain e where e: "e \<in> set (by_type f ''IfcObject'')"
      "\<not> is_a e ''IfcVirtualElement''" "label_of n = label_of e"
      by blast
    from label_of_inj [OF e(3)] no [OF e(1,2)] show False by simp
  qed
qed

lemma kept_lines:
  "candidates reg rs = Inr ps \<Longrightarrow> s \<in> set (kept interest ps) \<Longrightarrow>
     \<exists>a b la lb w st. (a, b, s) \<in> set ps \<and> reg a = Some la \<and> reg b = Some lb \<and> s = EdgeStmt la lb w st
        \<and> (interest = {} \<or> (a \<in> interest \<and> b \<in> interest))"
proof -
  assume c: "candidates reg rs = Inr ps" and "s \<in> set (kept interest ps)"
  then obtain a b where m: "(a, b, s) \<in> set ps" and i: "interest = {} \<or> (a \<in> interest \<and> b \<in> interest)"
    by (auto simp: kept_def)
  from candidates_registered [OF c m] i m show ?thesis by blast
qed

lemma write_dot_lines:
  assumes "write_dot depth f interest = Inr (out, ni)"
  obtains ps ls where "candidates (ifc_objects_of f interest) (by_type f ''IfcRelationship'') = Inr ps"
    and "site_loop depth f (ifc_objects_of f interest) interest (by_type f ''IfcSite'') = Inr ls"
    and "out = [GraphOpen, GraphAttrs] @ node_lines interest (by_type f ''IfcObject'')
                 @ kept interest ps @ ls @ [BlockClose]"
    and "ni = interest \<union> frontier interest ps"
  using assms by (auto simp: write_dot_eq split: sum.splits)

subsection \<open>Virtual elements\<close>

text \<open>
  C4.  In a file whose instance ids are unique, an instance of the virtual type
  (\<open>IfcVirtualElement\<close>) gets no entry in the registry and, whatever the interest set,
  no line of a returning call names it: no node line, no edge line, no cluster member
  line carries its label and no cluster is opened under its id.
\<close>

theorem virtual_never_emitted:
  assumes "distinct (map eid (instances f))" and "n \<in> set (instances f)"
    and "is_a n ''IfcVirtualElement''"
    and "write_dot depth f interest = Inr (out, ni)"
  shows "eid n \<notin> dom (ifc_objects_of f interest) \<and> (\<forall>s \<in> set out. \<not> mentions n s)"
proof
  note v = virtual_label_unregistered [OF assms(1-3), of interest]
  show "eid n \<notin> dom (ifc_objects_of f interest)" by (rule v(1))
  from assms(4) obtain ps ls
    where ps: "candidates (ifc_objects_of f interest) (by_type f ''IfcRelationship'') = Inr ps"
      and ls: "site_loop depth f (ifc_objects_of f interest) interest (by_type f ''IfcSite'') = Inr ls"
      and out: "out = [GraphOpen, GraphAttrs] @ node_lines interest (by_type f ''IfcObject'')
                 @ kept interest ps @ ls @ [BlockClose]"
    by (rule write_dot_lines)
  show "\<forall>s \<in> set out. \<not> mentions n s"
  proof
    fix s assume "s \<in> set out"
    with out consider "s \<in> {GraphOpen, GraphAttrs, BlockClose}"
      | "s \<in> set (node_lines interest (by_type f ''IfcObject''))"
      | "s \<in> set (kept interest ps)" | "s \<in> set ls"
      by auto
    then show "\<not> mentions n s"
    proof cases
      case 1
      then show ?thesis by auto
    next
      case 2
      then obtain e where e: "e \<in> set (by_type f ''IfcObject'')" "\<not> is_a e ''IfcVirtualElement''"
        and s: "s = NodeStmt (label_of e) (fill e)"
        by (auto simp: node_lines_def shown_def)
      from registry_of_object [OF assms(1) e, of interest] have "label_of e \<in> ran (ifc_objects_of f interest)"
        by (rule ranI)
      with v(2) s show ?thesis by auto
    next
      case 3
      from kept_lines [OF ps 3] obtain a b la lb w st
        where "ifc_objects_of f interest a = Some la" "ifc_objects_of f interest b = Some lb"
          "s = EdgeStmt la lb w st"
        by blast
      with v(2) show ?thesis by (auto simp: ran_def)
    next
      case 4
      with site_loop_lines [OF ls] have "cluster_line (ifc_objects_of f interest) s" by blast
      with v show ?thesis by (cases s) auto
    qed
  qed
qed

theorem virtual_never_emitted_witness:
  "distinct (map eid (instances ex_file)) \<and> ex_virtual \<in> set (instances ex_file)
   \<and> is_a ex_virtual ''IfcVirtualElement''
   \<and> (\<exists>out ni. write_dot 5 ex_file {} = Inr (out, ni)
         \<and> eid ex_virtual \<notin> dom (ifc_objects_of ex_file {}) \<and> (\<forall>s \<in> set out. \<not> mentions ex_virtual s))"
proof -
  have m: "ex_virtual \<in> set (instances ex_file)" by (simp add: ex_file_def)
  have v: "is_a ex_virtual ''IfcVirtualElement''" by (simp add: is_a_def ex_virtual_def)
  from virtual_never_emitted [OF ex_distinct m v ex_run_all] ex_distinct m v ex_run_all
  show ?thesis by blast
qed

subsection \<open>Nodes outside the interest set\<close>

text \<open>
  C8.  In a file whose instance ids are unique, a non-virtual \<open>IfcObject\<close> whose id is
  not in a non-empty interest set is registered under its id with its own label, and no
  styled node line is written for it: neither by the node pass nor anywhere in the
  output of a returning call.
\<close>

theorem filtered_node_registered_not_drawn:
  assumes "distinct (map eid (instances f))" and "e \<in> set (by_type f ''IfcObject'')"
    and "\<not> is_a e ''IfcVirtualElement''" and "interest \<noteq> {}" and "eid e \<notin> interest"
  shows "ifc_objects_of f interest (eid e) = Some (label_of e)
       \<and> (\<forall>c. NodeStmt (label_of e) c \<notin>
              set (snd (node_loop interest (by_type f ''IfcObject'') (Map.empty, [GraphOpen, GraphAttrs]))))
       \<and> (\<forall>out ni c. write_dot depth f interest = Inr (out, ni) \<longrightarrow> NodeStmt (label_of e) c \<notin> set out)"
proof -
  have nl: "NodeStmt (label_of e) c \<notin> set (node_lines interest (by_type f ''IfcObject''))" for c
  proof
    assume "NodeStmt (label_of e) c \<in> set (node_lines interest (by_type f ''IfcObject''))"
    then obtain x where "shown interest x" "label_of e = label_of x"
      by (auto simp: node_lines_def)
    with assms(4,5) label_of_inj [of e x] show False
      by (auto simp: shown_def)
  qed
  have "NodeStmt (label_of e) c \<notin> set out" if w: "write_dot depth f interest = Inr (out, ni)" for out ni c
  proof
    assume a: "NodeStmt (label_of e) c \<in> set out"
    from w obtain ps ls
      where ps: "candidates (ifc_objects_of f interest) (by_type f ''IfcRelationship'') = Inr ps"
        and ls: "site_loop depth f (ifc_objects_of f interest) interest (by_type f ''IfcSite'') = Inr ls"
        and out: "out = [GraphOpen, GraphAttrs] @ node_lines interest (by_type f ''IfcObject'')
                   @ kept interest ps @ ls @ [BlockClose]"
      by (rule write_dot_lines)
    from a out nl consider "NodeStmt (label_of e) c \<in> set (kept interest ps)"
      | "NodeStmt (label_of e) c \<in> set ls"
      by auto
    then show False
    proof cases
      case 1
      from kept_lines [OF ps 1] show False by auto
    next
      case 2
      with site_loop_lines [OF ls] have "cluster_line (ifc_objects_of f interest) (NodeStmt (label_of e) c)"
        by blast
      then show False by simp
    qed
  qed
  with nl registry_of_object [OF assms(1-3), of interest] show ?thesis
    by (simp add: node_loop_eq)
qed

theorem filtered_node_registered_not_drawn_witness:
  "distinct (map eid (instances ex_file)) \<and> ex_wall \<in> set (by_type ex_file ''IfcObject'')
   \<and> \<not> is_a ex_wall ''IfcVirtualElement'' \<and> {1::int} \<noteq> {} \<and> eid ex_wall \<notin> {1::int}
   \<and> ifc_objects_of ex_file {1} (eid ex_wall) = Some (label_of ex_wall)
   \<and> (\<exists>out ni. write_dot 5 ex_file {1} = Inr (out, ni) \<and> (\<forall>c. NodeStmt (label_of ex_wall) c \<notin> set out))"
proof -
  have m: "ex_wall \<in> set (by_type ex_file ''IfcObject'')"
    by (simp add: by_type_def ex_file_def is_a_def ex_wall_def)
  have v: "\<not> is_a ex_wall ''IfcVirtualElement''" by (simp add: is_a_def ex_wall_def)
  have i: "{1::int} \<noteq> {}" "eid ex_wall \<notin> {1::int}" by (simp_all add: ex_ids)
  from filtered_node_registered_not_drawn [OF ex_distinct m v i, of 5] ex_distinct m v i ex_run_site
  show ?thesis by blast
qed

subsection \<open>The returned frontier\<close>

text \<open>
  C10.  Every id of the returned next-interest that was not in the input interest set
  is a key of the registry, that is, the id of a non-virtual instance enumerated as
  \<open>IfcObject\<close>; with unique instance ids, no virtual instance and no instance outside
  \<open>IfcObject\<close> has such an id.
\<close>

theorem new_interest_registered:
  assumes "write_dot depth f interest = Inr (out, ni)"
  shows "(\<forall>i \<in> ni - interest.
            i \<in> dom (ifc_objects_of f interest)
            \<and> (\<exists>e \<in> set (by_type f ''IfcObject''). \<not> is_a e ''IfcVirtualElement'' \<and> eid e = i))
       \<and> (distinct (map eid (instances f)) \<longrightarrow>
            (\<forall>n \<in> set (instances f). eid n \<in> ni - interest \<longrightarrow>
               is_a n ''IfcObject'' \<and> \<not> is_a n ''IfcVirtualElement''))"
proof -
  from assms obtain ps
    where ps: "candidates (ifc_objects_of f interest) (by_type f ''IfcRelationship'') = Inr ps"
      and ni: "ni = interest \<union> frontier interest ps"
    by (rule write_dot_lines)
  have d: "ni - interest \<subseteq> dom (ifc_objects_of f interest)"
    using frontier_registered [OF ps, of interest] ni by auto
  have e: "\<exists>e \<in> set (by_type f ''IfcObject''). \<not> is_a e ''IfcVirtualElement'' \<and> eid e = i"
    if "i \<in> ni - interest" for i
    using that d registry_dom [of f interest] by auto
  have u: "is_a n ''IfcObject'' \<and> \<not> is_a n ''IfcVirtualElement''"
    if dist: "distinct (map eid (instances f))" and n: "n \<in> set (instances f)"
      and i: "eid n \<in> ni - interest" for n
  proof -
    from e [OF i] obtain x where x: "x \<in> set (by_type f ''IfcObject'')"
      "\<not> is_a x ''IfcVirtualElement''" "eid x = eid n"
      by blast
    with unique_id [OF dist _ n] by_type_subset have "x = n" by blast
    with x show ?thesis by (simp add: by_type_def)
  qed
  from d e u show ?thesis by blast
qed

theorem new_interest_registered_witness:
  "\<exists>out ni. write_dot 5 ex_file {1} = Inr (out, ni) \<and> ni - {1} = {2}
     \<and> 2 \<in> dom (ifc_objects_of ex_file {1})
     \<and> (\<exists>e \<in> set (by_type ex_file ''IfcObject''). \<not> is_a e ''IfcVirtualElement'' \<and> eid e = 2)
     \<and> distinct (map eid (instances ex_file))
     \<and> (\<forall>n \<in> set (instances ex_file). eid n \<in> ni - {1} \<longrightarrow>
           is_a n ''IfcObject'' \<and> \<not> is_a n ''IfcVirtualElement'')"
proof -
  have "{2, 1} - {1} = {2::int}" by auto
  with new_interest_registered [OF ex_run_site] ex_run_site ex_distinct show ?thesis
    by (intro exI [of _ "{2, 1}"] exI conjI) auto
qed

subsection \<open>Cluster pruning\<close>

lemma by_type_decomposition: "by_type (f\<lparr>get_decomposition := g\<rparr>) t = by_type f t"
  by (simp add: by_type_def)

lemma registry_decomposition:
  "ifc_objects_of (f\<lparr>get_decomposition := g\<rparr>) interest = ifc_objects_of f interest"
  by (simp add: ifc_objects_of_def by_type_decomposition)

text \<open>
  C9.  A call of the cluster emitter on a root whose id is not in a non-empty interest
  set writes nothing and returns; it does so with a single call left, so it makes no
  nested call.  The emitter has no access to next-interest: the set that \<open>write_dot\<close>
  returns is the one the relationship pass produced, and it is the same whatever the
  decomposition query answers.
\<close>

theorem pruned_cluster_noop:
  "(interest \<noteq> {} \<and> eid e \<notin> interest \<longrightarrow> cluster (Suc depth) f reg interest e = Inr [])
   \<and> (write_dot depth f interest = Inr (out, ni) \<longrightarrow>
        (\<exists>edges. rel_loop (ifc_objects_of f interest) interest (by_type f ''IfcRelationship'')
                   (snd (node_loop interest (by_type f ''IfcObject'') (Map.empty, [GraphOpen, GraphAttrs])),
                    interest) = Inr (edges, ni))
        \<and> (\<forall>g depth' out' ni'.
              write_dot depth' (f\<lparr>get_decomposition := g\<rparr>) interest = Inr (out', ni') \<longrightarrow> ni' = ni))"
proof (intro conjI impI)
  assume "interest \<noteq> {} \<and> eid e \<notin> interest"
  then show "cluster (Suc depth) f reg interest e = Inr []" by simp
next
  assume w: "write_dot depth f interest = Inr (out, ni)"
  then show "\<exists>edges. rel_loop (ifc_objects_of f interest) interest (by_type f ''IfcRelationship'')
                   (snd (node_loop interest (by_type f ''IfcObject'') (Map.empty, [GraphOpen, GraphAttrs])),
                    interest) = Inr (edges, ni)"
    by (auto simp: write_dot_def ifc_objects_of_def Let_def split: prod.splits sum.splits)
next
  assume w: "write_dot depth f interest = Inr (out, ni)"
  from w obtain ps
    where ps: "candidates (ifc_objects_of f interest) (by_type f ''IfcRelationship'') = Inr ps"
      and ni: "ni = interest \<union> frontier interest ps"
    by (rule write_dot_lines)
  show "\<forall>g depth' out' ni'.
          write_dot depth' (f\<lparr>get_decomposition := g\<rparr>) interest = Inr (out', ni') \<longrightarrow> ni' = ni"
  proof (intro allI impI)
    fix g depth' out' ni'
    assume "write_dot depth' (f\<lparr>get_decomposition := g\<rparr>) interest = Inr (out', ni')"
    then obtain ps'
      where "candidates (ifc_objects_of f interest) (by_type f ''IfcRelationship'') = Inr ps'"
        and "ni' = interest \<union> frontier interest ps'"
      by (rule write_dot_lines) (simp add: registry_decomposition by_type_decomposition)
    with ps ni show "ni' = ni" by simp
  qed
qed

theorem pruned_cluster_noop_witness:
  "{2::int} \<noteq> {} \<and> eid ex_site \<notin> {2::int}
   \<and> cluster (Suc 0) ex_file ex_registry {2} ex_site = Inr []
   \<and> (\<exists>out. write_dot 5 ex_file {1} = Inr (out, {2, 1}))
   \<and> (\<exists>edges. rel_loop (ifc_objects_of ex_file {1}) {1} (by_type ex_file ''IfcRelationship'')
                   (snd (node_loop {1} (by_type ex_file ''IfcObject'') (Map.empty, [GraphOpen, GraphAttrs])),
                    {1}) = Inr (edges, {2, 1}))"
proof -
  have i: "{2::int} \<noteq> {} \<and> eid ex_site \<notin> {2::int}" by (simp add: ex_ids)
  with pruned_cluster_noop [of "{2}" ex_site 0 ex_file ex_registry]
  have c: "cluster (Suc 0) ex_file ex_registry {2} ex_site = Inr []"
    by blast
  from pruned_cluster_noop [of "{1}" ex_site 5 ex_file ex_registry _ "{2, 1}"] ex_run_site
  have "\<exists>edges. rel_loop (ifc_objects_of ex_file {1}) {1} (by_type ex_file ''IfcRelationship'')
                   (snd (node_loop {1} (by_type ex_file ''IfcObject'') (Map.empty, [GraphOpen, GraphAttrs])),
                    {1}) = Inr (edges, {2, 1})"
    by blast
  with i c ex_run_site show ?thesis by blast
qed

subsection \<open>Unregistered references\<close>

text \<open>
  C7.  The edge pass tests both endpoints against the registry (lines 142-143) and
  leaves out a candidate with an unregistered endpoint; the cluster emitter reads the
  registry without a test (lines 199 and 206).  A child returned by the decomposition
  query that is neither virtual nor registered makes the call fail with \<open>KeyError\<close>
  instead of being left out, however deep the interpreter lets the recursion go:
  here the site \<open>#1\<close> is aggregated from the wall type \<open>#5\<close>, which is not an
  \<open>IfcObject\<close>.
\<close>

theorem cluster_unregistered_child_fails:
  "get_decomposition ex_type_file ex_site = [ex_wall_type]
   \<and> \<not> is_a ex_wall_type ''IfcVirtualElement''
   \<and> ifc_objects_of ex_type_file {} (eid ex_wall_type) = None
   \<and> rel_loop (ifc_objects_of ex_type_file {}) {} (by_type ex_type_file ''IfcRelationship'')
        ([], {}) = Inr ([], {})
   \<and> write_dot (Suc depth) ex_type_file {} = Inl (KeyError 5)"
proof -
  have d: "get_decomposition ex_type_file ex_site = [ex_wall_type]"
    by (simp add: ex_type_file_def)
  have v: "\<not> is_a ex_wall_type ''IfcVirtualElement''" "\<not> is_a ex_site ''IfcVirtualElement''"
    by code_simp+
  have i: "eid ex_wall_type = 5" "eid ex_site = 1"
    by (simp_all add: ex_wall_type_def ex_site_def)
  have r: "ifc_objects_of ex_type_file {} 5 = None"
    "ifc_objects_of ex_type_file {} 1 = Some ''#1=IfcSite''"
    by code_simp+
  have e: "rel_loop (ifc_objects_of ex_type_file {}) {} (by_type ex_type_file ''IfcRelationship'')
        ([], {}) = Inr ([], {})"
    by code_simp
  have c: "candidates (ifc_objects_of ex_type_file {}) (by_type ex_type_file ''IfcRelationship'') = Inr []"
    by code_simp
  have s: "by_type ex_type_file ''IfcSite'' = [ex_site]"
    by code_simp
  have "cluster (Suc depth) ex_type_file (ifc_objects_of ex_type_file {}) {} ex_site = Inl (KeyError 5)"
    by (simp add: d v r i)
  then have "write_dot (Suc depth) ex_type_file {} = Inl (KeyError 5)"
    by (simp add: write_dot_eq c s del: cluster.simps)
  with d v r e i show ?thesis by simp
qed

subsection \<open>Relationship decomposer\<close>





















subsection \<open>Monotonicity and the caller's set\<close>

lemma write_dot_superset: "write_dot depth f interest = Inr (out, ni) \<Longrightarrow> interest \<subseteq> ni"
  by (erule write_dot_lines) simp

lemma edge_step_refs_eq:
  assumes "p < length h" and "q < length h" and "p \<noteq> q"
  shows "edge_step_refs reg p q relating w s x (out, h) =
    (case edge_step reg (h ! p) relating w s x (out, h ! q) of
       Inl e \<Rightarrow> Inl e
     | Inr (out', ni) \<Rightarrow> Inr (out', h[q := ni]))"
  using assms by (auto simp: set_add_def split: option.splits)

lemma edge_loop_refs_eq:
  assumes "p < length h" and "q < length h" and "p \<noteq> q"
  shows "edge_loop_refs reg p q relating w s xs (out, h) =
    (case edge_loop reg (h ! p) relating w s xs (out, h ! q) of
       Inl e \<Rightarrow> Inl e
     | Inr (out', ni) \<Rightarrow> Inr (out', h[q := ni]))"
  using assms
proof (induction xs arbitrary: out h)
  case Nil
  then show ?case by simp
next
  case (Cons x xs)
  show ?case
  proof (cases "edge_step reg (h ! p) relating w s x (out, h ! q)")
    case (Inl e)
    with Cons.prems show ?thesis
      by (simp add: edge_step_refs_eq del: edge_step.simps edge_step_refs.simps)
  next
    case (Inr st)
    obtain out' ni where st: "st = (out', ni)" by (cases st) auto
    from Cons.prems have "p < length (h[q := ni])" "q < length (h[q := ni])" by simp_all
    from Cons.IH [OF this Cons.prems(3), of out'] Cons.prems Inr st show ?thesis
      by (simp add: edge_step_refs_eq del: edge_step.simps edge_step_refs.simps
            split: sum.splits)
  qed
qed

lemma rel_loop_refs_eq:
  assumes "p < length h" and "q < length h" and "p \<noteq> q"
  shows "rel_loop_refs reg p q rs (out, h) =
    (case rel_loop reg (h ! p) rs (out, h ! q) of
       Inl e \<Rightarrow> Inl e
     | Inr (out', ni) \<Rightarrow> Inr (out', h[q := ni]))"
  using assms
proof (induction rs arbitrary: out h)
  case Nil
  then show ?case by simp
next
  case (Cons r rs)
  show ?case
  proof (cases "decompose r")
    case (Inl e)
    then show ?thesis by simp
  next
    case d: (Inr sh)
    obtain relating related w s where sh: "sh = (relating, related, w, s)"
      by (cases sh) auto
    show ?thesis
    proof (cases "edge_loop reg (h ! p) relating w s related (out, h ! q)")
      case (Inl e)
      with Cons.prems d sh show ?thesis
        by (simp add: edge_loop_refs_eq)
    next
      case (Inr st)
      obtain out' ni where st: "st = (out', ni)" by (cases st) auto
      from Cons.prems have "p < length (h[q := ni])" "q < length (h[q := ni])" by simp_all
      from Cons.IH [OF this Cons.prems(3), of out'] Cons.prems Inr st d sh show ?thesis
        by (simp add: edge_loop_refs_eq split: sum.splits)
    qed
  qed
qed

text \<open>Over a valid reference the store version is \<open>write_dot\<close> on the set's elements.\<close>

lemma write_dot_refs_eq:
  assumes "p < length h"
  shows "write_dot_refs depth f h p =
    (case write_dot depth f (h ! p) of
       Inl e \<Rightarrow> Inl e
     | Inr (out, ni) \<Rightarrow> Inr (out, length h, h @ [ni]))"
proof -
  let ?h1 = "h @ [h ! p]"
  have l: "p < length ?h1" "length h < length ?h1" "p \<noteq> length h"
    using assms by simp_all
  have v: "?h1 ! p = h ! p" "?h1 ! length h = h ! p" "\<And>ni. ?h1[length h := ni] = h @ [ni]"
    "\<And>ni. (h @ [ni]) ! p = h ! p"
    using assms by (simp_all add: nth_append)
  show ?thesis
    unfolding write_dot_refs_def write_dot_def set_copy_def Let_def prod.case
    by (simp add: rel_loop_refs_eq [OF l] v split: prod.splits sum.splits)
qed

text \<open>
  C2.  For a valid reference to the caller's interest set: the set returned by
  \<open>write_dot\<close> contains every element of the input set, it is a new object, and at the
  return the caller's object and every other object that existed at the call hold what
  they held at the call.
\<close>

theorem new_interest_superset:
  assumes "interest < length h"
    and "write_dot_refs depth f h interest = Inr (out, new_interest, h')"
  shows "h ! interest \<subseteq> h' ! new_interest \<and> h' ! interest = h ! interest
       \<and> new_interest \<noteq> interest \<and> take (length h) h' = h"
proof -
  from assms obtain ni where w: "write_dot depth f (h ! interest) = Inr (out, ni)"
    and n: "new_interest = length h" and h': "h' = h @ [ni]"
    by (auto simp: write_dot_refs_eq split: sum.splits)
  from write_dot_superset [OF w] n h' assms(1) show ?thesis
    by (simp add: nth_append)
qed

theorem new_interest_superset_witness:
  "(0::nat) < length [{1::int}]
   \<and> (\<exists>out. write_dot_refs 5 ex_file [{1}] 0 = Inr (out, 1, [{1}, {2, 1}]))
   \<and> [{1::int}] ! 0 \<subseteq> [{1}, {2, 1}] ! 1 \<and> [{1}, {2, 1::int}] ! 0 = [{1}] ! 0
   \<and> (1::nat) \<noteq> 0 \<and> take (length [{1::int}]) [{1}, {2, 1}] = [{1}]"
proof -
  have l: "(0::nat) < length [{1::int}]" by simp
  have r: "write_dot_refs 5 ex_file [{1}] 0 =
     Inr ([GraphOpen, GraphAttrs, NodeStmt ''#1=IfcSite'' ''#ff99cc'',
           SubgraphOpen 1, ClusterTrue, Member ''#1=IfcSite'', BlockClose, BlockClose], 1, [{1}, {2, 1}])"
    by code_simp
  from new_interest_superset [OF l r] l r show ?thesis
    by (intro conjI exI) simp_all
qed

subsection \<open>Full expansion\<close>

text \<open>A cluster pass that returns without an interest set returns with every interest set.\<close>

lemma cluster_returns_filtered:
  "(\<exists>ls. cluster depth f reg {} e = Inr ls) \<longrightarrow> (\<exists>ls. cluster depth f reg interest e = Inr ls)"
  "(\<exists>ls. cluster_children depth f reg {} es = Inr ls)
     \<longrightarrow> (\<exists>ls. cluster_children depth f reg interest es = Inr ls)"
proof (induction depth f reg interest e and depth f reg interest es
       rule: cluster_cluster_children.induct)
  case (1 f ifc_objects interest ifc_object)
  show ?case by simp
next
  case (2 depth f ifc_objects interest ifc_object)
  show ?case
  proof (cases "is_a ifc_object ''IfcVirtualElement'' \<or> (interest \<noteq> {} \<and> eid ifc_object \<notin> interest)
                \<or> get_decomposition f ifc_object = []")
    case True
    then show ?thesis by auto
  next
    case False
    then have nv: "\<not> is_a ifc_object ''IfcVirtualElement''"
      and ni: "\<not> (interest \<noteq> {} \<and> eid ifc_object \<notin> interest)"
      and ch: "get_decomposition f ifc_object \<noteq> []"
      by auto
    show ?thesis
    proof
      assume "\<exists>ls. cluster (Suc depth) f ifc_objects {} ifc_object = Inr ls"
      with nv ch obtain l body where l: "ifc_objects (eid ifc_object) = Some l"
        and "cluster_children depth f ifc_objects {} (get_decomposition f ifc_object) = Inr body"
        by (auto simp: Let_def split: option.splits sum.splits)
      with "2.IH" [OF nv ni refl ch l] obtain body'
        where "cluster_children depth f ifc_objects interest (get_decomposition f ifc_object) = Inr body'"
        by blast
      with nv ni ch l show "\<exists>ls. cluster (Suc depth) f ifc_objects interest ifc_object = Inr ls"
        by (auto simp: Let_def)
    qed
  qed
next
  case (3 depth f ifc_objects interest)
  show ?case by simp
next
  case (4 depth f ifc_objects interest child rest)
  show ?case
  proof (cases "is_a child ''IfcVirtualElement''")
    case True
    with 4 show ?thesis by simp
  next
    case nv: False
    show ?thesis
    proof (cases "interest \<noteq> {} \<and> eid child \<notin> interest")
      case True
      with nv 4 show ?thesis
        by (auto split: option.splits sum.splits)
    next
      case ni: False
      show ?thesis
      proof
        assume "\<exists>ls. cluster_children depth f ifc_objects {} (child # rest) = Inr ls"
        with nv obtain l sub others where l: "ifc_objects (eid child) = Some l"
          and "cluster depth f ifc_objects {} child = Inr sub"
          and "cluster_children depth f ifc_objects {} rest = Inr others"
          by (auto split: option.splits sum.splits)
        with "4.IH"(3) [OF nv ni l] "4.IH"(4) [OF nv ni l] obtain sub' others'
          where "cluster depth f ifc_objects interest child = Inr sub'"
            and "cluster_children depth f ifc_objects interest rest = Inr others'"
          by blast
        with nv ni l show "\<exists>ls. cluster_children depth f ifc_objects interest (child # rest) = Inr ls"
          by auto
      qed
    qed
  qed
qed

lemma site_loop_returns_filtered:
  "site_loop depth f reg {} es = Inr ls0 \<Longrightarrow> \<exists>ls. site_loop depth f reg interest es = Inr ls"
proof (induction es arbitrary: ls0)
  case Nil
  then show ?case by simp
next
  case (Cons e es)
  from Cons.prems obtain l r where c: "cluster depth f reg {} e = Inr l"
    and r: "site_loop depth f reg {} es = Inr r"
    by (auto split: sum.splits)
  from cluster_returns_filtered(1) [of depth f reg e interest] c
  obtain l' where "cluster depth f reg interest e = Inr l'" by blast
  moreover from Cons.IH [OF r] obtain r' where "site_loop depth f reg interest es = Inr r'" by blast
  ultimately show ?case by simp
qed

lemma write_dot_filtered:
  assumes "write_dot depth f {} = Inr (full, ni0)"
  shows "\<exists>ps. candidates (ifc_objects_of f {}) (by_type f ''IfcRelationship'') = Inr ps
    \<and> (\<forall>interest. \<exists>ls.
          site_loop depth f (ifc_objects_of f {}) interest (by_type f ''IfcSite'') = Inr ls
          \<and> write_dot depth f interest =
             Inr ([GraphOpen, GraphAttrs] @ node_lines interest (by_type f ''IfcObject'')
                    @ kept interest ps @ ls @ [BlockClose],
                  interest \<union> frontier interest ps))"
proof -
  from assms obtain ps ls0
    where ps: "candidates (ifc_objects_of f {}) (by_type f ''IfcRelationship'') = Inr ps"
      and ls0: "site_loop depth f (ifc_objects_of f {}) {} (by_type f ''IfcSite'') = Inr ls0"
    by (rule write_dot_lines)
  have "\<exists>ls. site_loop depth f (ifc_objects_of f {}) interest (by_type f ''IfcSite'') = Inr ls
          \<and> write_dot depth f interest =
             Inr ([GraphOpen, GraphAttrs] @ node_lines interest (by_type f ''IfcObject'')
                    @ kept interest ps @ ls @ [BlockClose],
                  interest \<union> frontier interest ps)" for interest
  proof -
    from site_loop_returns_filtered [OF ls0, of interest] obtain ls
      where ls: "site_loop depth f (ifc_objects_of f {}) interest (by_type f ''IfcSite'') = Inr ls"
      by blast
    have r: "ifc_objects_of f interest = ifc_objects_of f {}" by (rule registry_any_interest)
    from ps ls show ?thesis
      by (simp add: write_dot_eq r)
  qed
  with ps show ?thesis by blast
qed

text \<open>The frontier of a non-empty set is its neighbourhood in the graph of the candidates.\<close>

lemma frontier_iff:
  "x \<in> frontier I ps \<longleftrightarrow>
     I \<noteq> {} \<and> x \<notin> I \<and> (\<exists>y \<in> I. (y, x) \<in> id_edges ps \<union> (id_edges ps)\<inverse>)"
  by (auto simp: frontier_def id_edges_def)

lemma reach_start: "I \<subseteq> reach ps I"
  by (auto simp: reach_def)

lemma reach_step:
  "y \<in> reach ps I \<Longrightarrow> (y, x) \<in> id_edges ps \<union> (id_edges ps)\<inverse> \<Longrightarrow> x \<in> reach ps I"
  unfolding reach_def by (blast intro: rtrancl_into_rtrancl)

lemma frontier_reach:
  assumes "I \<subseteq> reach ps I0"
  shows "frontier I ps \<subseteq> reach ps I0"
proof
  fix x assume "x \<in> frontier I ps"
  then obtain y where "y \<in> I" "(y, x) \<in> id_edges ps \<union> (id_edges ps)\<inverse>"
    unfolding frontier_iff by blast
  with assms reach_step [of y ps I0 x] show "x \<in> reach ps I0" by blast
qed

lemma reach_closed:
  assumes "I0 \<subseteq> I" and "\<And>x y. y \<in> I \<Longrightarrow> (y, x) \<in> id_edges ps \<union> (id_edges ps)\<inverse> \<Longrightarrow> x \<in> I"
  shows "reach ps I0 \<subseteq> I"
proof
  fix x assume "x \<in> reach ps I0"
  then obtain i where i: "i \<in> I0" and r: "(i, x) \<in> (id_edges ps \<union> (id_edges ps)\<inverse>)\<^sup>*"
    by (auto simp: reach_def)
  from r show "x \<in> I"
  proof (induction rule: rtrancl_induct)
    case base
    with i assms(1) show ?case by blast
  next
    case (step y z)
    with assms(2) show ?case by blast
  qed
qed

lemma stable_is_reach:
  assumes "I \<noteq> {}" and "I0 \<subseteq> I" and "I \<subseteq> reach ps I0" and "I \<union> frontier I ps = I"
  shows "I = reach ps I0"
proof -
  have "x \<in> I" if "y \<in> I" "(y, x) \<in> id_edges ps \<union> (id_edges ps)\<inverse>" for x y
  proof (rule ccontr)
    assume "x \<notin> I"
    with that assms(1) have "x \<in> frontier I ps"
      unfolding frontier_iff by blast
    with assms(4) \<open>x \<notin> I\<close> show False by blast
  qed
  with assms(2) have "reach ps I0 \<subseteq> I" by (rule reach_closed)
  with assms(3) show ?thesis by blast
qed

lemma registry_finite: "finite (dom (ifc_objects_of f interest))"
  by (simp add: registry_dom)

lemma expand_reaches:
  assumes ps: "candidates (ifc_objects_of f {}) rels = Inr ps"
    and wd: "\<And>I. \<exists>out. write_dot depth f I = Inr (out, I \<union> frontier I ps)"
    and "I \<noteq> {}" and "I0 \<subseteq> I" and "I \<subseteq> reach ps I0"
  shows "\<exists>n out. expand n depth f I = Some (Inr (out, reach ps I0))
           \<and> write_dot depth f (reach ps I0) = Inr (out, reach ps I0)"
  using assms(3-5)
proof (induction "card (dom (ifc_objects_of f {}) - I)" arbitrary: I rule: less_induct)
  case less
  from wd obtain out where w: "write_dot depth f I = Inr (out, I \<union> frontier I ps)" by blast
  show ?case
  proof (cases "I \<union> frontier I ps = I")
    case True
    from stable_is_reach [OF less.prems True] have r: "I = reach ps I0" .
    from w True have "expand (Suc 0) depth f I = Some (Inr (out, I))" by simp
    with w True r show ?thesis by metis
  next
    case False
    let ?I = "I \<union> frontier I ps"
    from False obtain x where x: "x \<in> frontier I ps" "x \<notin> I" by blast
    from frontier_registered [OF ps, of I] x have "x \<in> dom (ifc_objects_of f {})" by blast
    with x have "dom (ifc_objects_of f {}) - ?I \<subset> dom (ifc_objects_of f {}) - I" by blast
    with registry_finite [of f "{}"]
    have c: "card (dom (ifc_objects_of f {}) - ?I) < card (dom (ifc_objects_of f {}) - I)"
      by (intro psubset_card_mono) auto
    from less.prems frontier_reach [of I ps I0] have p: "?I \<noteq> {}" "I0 \<subseteq> ?I" "?I \<subseteq> reach ps I0"
      by auto
    from less.hyps [OF c p] obtain n out'
      where n: "expand n depth f ?I = Some (Inr (out', reach ps I0))"
        and f: "write_dot depth f (reach ps I0) = Inr (out', reach ps I0)"
      by blast
    from w False n have "expand (Suc n) depth f I = Some (Inr (out', reach ps I0))"
      by simp
    with f show ?thesis by blast
  qed
qed

text \<open>The registry is injective, so the graph on labels is the graph on ids.\<close>

lemma registry_inj:
  assumes "ifc_objects_of f interest i = Some l" and "ifc_objects_of f interest j = Some l"
  shows "i = j"
proof -
  from registry_entry [OF assms(1)] registry_entry [OF assms(2)]
  obtain e e' where "eid e = i" "l = label_of e" "eid e' = j" "l = label_of e'" by blast
  with label_of_inj [of e e'] show ?thesis by simp
qed

lemma kept_all: "set (kept {} ps) = {l. \<exists>a b. (a, b, l) \<in> set ps}"
  by (auto simp: kept_def) force

lemma kept_within:
  "I \<noteq> {} \<Longrightarrow> set (kept I ps) = {l. \<exists>a b. (a, b, l) \<in> set ps \<and> a \<in> I \<and> b \<in> I}"
  by (auto simp: kept_def) force

lemma cluster_line_not_graph: "cluster_line reg s \<Longrightarrow> \<not> is_graph_line s \<and> (\<forall>l1 l2 w t. s \<noteq> EdgeStmt l1 l2 w t)"
  by (cases s) auto

lemma output_graph_lines:
  assumes "candidates reg rels = Inr ps" and "site_loop depth f reg interest sites = Inr ls"
    and "out = [GraphOpen, GraphAttrs] @ node_lines interest es @ kept interest ps @ ls @ [BlockClose]"
  shows "graph_lines out = set (node_lines interest es) \<union> set (kept interest ps)"
    and "edge_graph out = {(l1, l2). \<exists>w s. EdgeStmt l1 l2 w s \<in> set (kept interest ps)}"
proof -
  have c: "\<not> is_graph_line s \<and> (\<forall>l1 l2 w t. s \<noteq> EdgeStmt l1 l2 w t)" if "s \<in> set ls" for s
    using site_loop_lines [OF assms(2)] that cluster_line_not_graph by blast
  have n: "is_graph_line s \<and> (\<forall>l1 l2 w t. s \<noteq> EdgeStmt l1 l2 w t)" if "s \<in> set (node_lines interest es)" for s
    using that by (auto simp: node_lines_def)
  have k: "is_graph_line s" if "s \<in> set (kept interest ps)" for s
    using kept_lines [OF assms(1) that] by auto
  show "graph_lines out = set (node_lines interest es) \<union> set (kept interest ps)"
    using c n k by (auto simp: graph_lines_def assms(3))
  have "EdgeStmt l1 l2 w s \<in> set out \<longleftrightarrow> EdgeStmt l1 l2 w s \<in> set (kept interest ps)" for l1 l2 w s
    using c [of "EdgeStmt l1 l2 w s"] n [of "EdgeStmt l1 l2 w s"] by (auto simp: assms(3))
  then show "edge_graph out = {(l1, l2). \<exists>w s. EdgeStmt l1 l2 w s \<in> set (kept interest ps)}"
    by (simp add: edge_graph_def)
qed

lemma candidate_labels:
  assumes "candidates reg rels = Inr ps"
  shows "(a, b) \<in> id_edges ps \<Longrightarrow>
           \<exists>la lb w s. reg a = Some la \<and> reg b = Some lb \<and> EdgeStmt la lb w s \<in> set (kept {} ps)"
    and "EdgeStmt la lb w s \<in> set (kept {} ps) \<Longrightarrow>
           \<exists>a b. (a, b) \<in> id_edges ps \<and> reg a = Some la \<and> reg b = Some lb"
proof -
  show "\<exists>la lb w s. reg a = Some la \<and> reg b = Some lb \<and> EdgeStmt la lb w s \<in> set (kept {} ps)"
    if "(a, b) \<in> id_edges ps"
  proof -
    from that obtain l where l: "(a, b, l) \<in> set ps" by (auto simp: id_edges_def)
    from candidates_registered [OF assms l] obtain la lb w s
      where "reg a = Some la" "reg b = Some lb" "l = EdgeStmt la lb w s" by blast
    with l show ?thesis unfolding kept_all by blast
  qed
  show "\<exists>a b. (a, b) \<in> id_edges ps \<and> reg a = Some la \<and> reg b = Some lb"
    if "EdgeStmt la lb w s \<in> set (kept {} ps)"
  proof -
    from that obtain a b where l: "(a, b, EdgeStmt la lb w s) \<in> set ps"
      unfolding kept_all by blast
    from candidates_registered [OF assms l] have "reg a = Some la" "reg b = Some lb" by auto
    with l show ?thesis unfolding id_edges_def by blast
  qed
qed

lemma component_of_reach:
  assumes ps: "candidates (ifc_objects_of f {}) rels = Inr ps"
    and g: "edge_graph full = {(l1, l2). \<exists>w s. EdgeStmt l1 l2 w s \<in> set (kept {} ps)}"
    and i: "i \<in> reach ps I0" and l: "ifc_objects_of f {} i = Some l"
  shows "l \<in> component full (interest_labels f I0)"
proof -
  from i obtain i0 where i0: "i0 \<in> I0" and r: "(i0, i) \<in> (id_edges ps \<union> (id_edges ps)\<inverse>)\<^sup>*"
    by (auto simp: reach_def)
  from r have "\<forall>l. ifc_objects_of f {} i = Some l \<longrightarrow> l \<in> component full (interest_labels f I0)"
  proof (induction rule: rtrancl_induct)
    case base
    show ?case
    proof (intro allI impI)
      fix l assume "ifc_objects_of f {} i0 = Some l"
      with i0 have "l \<in> interest_labels f I0" by (auto simp: interest_labels_def)
      then show "l \<in> component full (interest_labels f I0)" by (auto simp: component_def)
    qed
  next
    case (step y z)
    show ?case
    proof (intro allI impI)
      fix l assume z: "ifc_objects_of f {} z = Some l"
      from step.hyps(2) consider "(y, z) \<in> id_edges ps" | "(z, y) \<in> id_edges ps" by blast
      then obtain ly where y: "ifc_objects_of f {} y = Some ly"
        and e: "(ly, l) \<in> edge_graph full \<union> (edge_graph full)\<inverse>"
      proof cases
        case 1
        from candidate_labels(1) [OF ps 1] z that show ?thesis unfolding g by force
      next
        case 2
        from candidate_labels(1) [OF ps 2] z that show ?thesis unfolding g by force
      qed
      from step.IH y have "ly \<in> component full (interest_labels f I0)" by blast
      with e show "l \<in> component full (interest_labels f I0)"
        unfolding component_def by (blast intro: rtrancl_into_rtrancl)
    qed
  qed
  with l show ?thesis by blast
qed

lemma reach_of_component:
  assumes ps: "candidates (ifc_objects_of f {}) rels = Inr ps"
    and g: "edge_graph full = {(l1, l2). \<exists>w s. EdgeStmt l1 l2 w s \<in> set (kept {} ps)}"
    and l: "l \<in> component full (interest_labels f I0)" and i: "ifc_objects_of f {} i = Some l"
  shows "i \<in> reach ps I0"
proof -
  from l obtain l0 i0 where i0: "i0 \<in> I0" "ifc_objects_of f {} i0 = Some l0"
    and r: "(l0, l) \<in> (edge_graph full \<union> (edge_graph full)\<inverse>)\<^sup>*"
    by (auto simp: component_def interest_labels_def)
  from r have "\<exists>j. ifc_objects_of f {} j = Some l \<and> j \<in> reach ps I0"
  proof (induction rule: rtrancl_induct)
    case base
    from i0 reach_start [of I0 ps] show ?case by blast
  next
    case (step y z)
    from step.IH obtain j where j: "ifc_objects_of f {} j = Some y" "j \<in> reach ps I0" by blast
    from step.hyps(2) consider "(y, z) \<in> edge_graph full" | "(z, y) \<in> edge_graph full" by blast
    then show ?case
    proof cases
      case 1
      then obtain w s where "EdgeStmt y z w s \<in> set (kept {} ps)" unfolding g by blast
      from candidate_labels(2) [OF ps this] obtain a b where ab: "(a, b) \<in> id_edges ps"
        "ifc_objects_of f {} a = Some y" "ifc_objects_of f {} b = Some z" by blast
      from registry_inj [OF j(1) ab(2)] have "j = a" .
      with j(2) ab(1) reach_step [of a ps I0 b] have "b \<in> reach ps I0" by blast
      with ab(3) show ?thesis by blast
    next
      case 2
      then obtain w s where "EdgeStmt z y w s \<in> set (kept {} ps)" unfolding g by blast
      from candidate_labels(2) [OF ps this] obtain a b where ab: "(a, b) \<in> id_edges ps"
        "ifc_objects_of f {} a = Some z" "ifc_objects_of f {} b = Some y" by blast
      from registry_inj [OF j(1) ab(3)] have "j = b" .
      with j(2) ab(1) reach_step [of b ps I0 a] have "a \<in> reach ps I0" by blast
      with ab(2) show ?thesis by blast
    qed
  qed
  then obtain j where "ifc_objects_of f {} j = Some l" "j \<in> reach ps I0" by blast
  with registry_inj [OF i, of j] show ?thesis by simp
qed

lemma restrict_graph_lines: "restrict_to out R = {s \<in> graph_lines out. within R s}"
proof -
  have "within R s \<Longrightarrow> is_graph_line s" for s by (cases s) auto
  then show ?thesis by (auto simp: restrict_to_def graph_lines_def)
qed

lemma expansion_lines:
  assumes d: "distinct (map eid (instances f))"
    and ps: "candidates (ifc_objects_of f {}) rels = Inr ps"
    and g: "edge_graph full = {(l1, l2). \<exists>w s. EdgeStmt l1 l2 w s \<in> set (kept {} ps)}"
    and gl: "graph_lines full = set (node_lines {} (by_type f ''IfcObject'')) \<union> set (kept {} ps)"
    and ne: "I0 \<noteq> {}"
  shows "set (node_lines (reach ps I0) (by_type f ''IfcObject'')) \<union> set (kept (reach ps I0) ps)
           = restrict_to full (component full (interest_labels f I0))"
    (is "?N \<union> ?K = restrict_to full ?C")
proof -
  let ?reg = "ifc_objects_of f {}"
  let ?R = "reach ps I0"
  from ne reach_start [of I0 ps] have rne: "?R \<noteq> {}" by blast
  have iff: "l \<in> ?C \<longleftrightarrow> i \<in> ?R" if "?reg i = Some l" for i l
    using component_of_reach [OF ps g _ that] reach_of_component [OF ps g _ that] by blast
  have node: "s \<in> ?N \<longleftrightarrow> s \<in> set (node_lines {} (by_type f ''IfcObject'')) \<and> within ?C s" for s
  proof
    assume "s \<in> ?N"
    then obtain e where e: "e \<in> set (by_type f ''IfcObject'')" "\<not> is_a e ''IfcVirtualElement''"
      "eid e \<in> ?R" and s: "s = NodeStmt (label_of e) (fill e)"
      using rne by (auto simp: node_lines_def shown_def)
    from iff [OF registry_of_object [OF d e(1,2)]] e(3) have "label_of e \<in> ?C" by simp
    with e s show "s \<in> set (node_lines {} (by_type f ''IfcObject'')) \<and> within ?C s"
      by (auto simp: node_lines_def shown_def)
  next
    assume "s \<in> set (node_lines {} (by_type f ''IfcObject'')) \<and> within ?C s"
    then obtain e where e: "e \<in> set (by_type f ''IfcObject'')" "\<not> is_a e ''IfcVirtualElement''"
      and s: "s = NodeStmt (label_of e) (fill e)" and w: "label_of e \<in> ?C"
      by (auto simp: node_lines_def shown_def)
    from iff [OF registry_of_object [OF d e(1,2)]] w have "eid e \<in> ?R" by simp
    with e s show "s \<in> ?N"
      by (auto simp: node_lines_def shown_def)
  qed
  have edge: "s \<in> ?K \<longleftrightarrow> s \<in> set (kept {} ps) \<and> within ?C s" for s
  proof
    assume "s \<in> ?K"
    then obtain a b where c: "(a, b, s) \<in> set ps" "a \<in> ?R" "b \<in> ?R"
      unfolding kept_within [OF rne] by blast
    from candidates_registered [OF ps c(1)] obtain la lb w t
      where r: "?reg a = Some la" "?reg b = Some lb" "s = EdgeStmt la lb w t" by blast
    from iff [OF r(1)] iff [OF r(2)] c(2,3) r(3) have "within ?C s" by simp
    with c(1) show "s \<in> set (kept {} ps) \<and> within ?C s" unfolding kept_all by blast
  next
    assume "s \<in> set (kept {} ps) \<and> within ?C s"
    then obtain a b where c: "(a, b, s) \<in> set ps" and w: "within ?C s"
      unfolding kept_all by blast
    from candidates_registered [OF ps c] obtain la lb w' t
      where r: "?reg a = Some la" "?reg b = Some lb" "s = EdgeStmt la lb w' t" by blast
    from iff [OF r(1)] iff [OF r(2)] w r(3) have "a \<in> ?R" "b \<in> ?R" by simp_all
    with c show "s \<in> ?K" unfolding kept_within [OF rne] by blast
  qed
  show ?thesis
    unfolding restrict_graph_lines gl using node edge by blast
qed

text \<open>
  C3, as amended.  Take a file with unique instance ids on which the call with the
  empty interest set returns, and a non-empty initial interest set.  Then the
  expansion loop stops after finitely many calls, none of which fails, and the node
  and edge lines of its final call are the node and edge lines of the call with the
  empty interest set whose labels lie in the weakly connected components, in the graph
  drawn by the edge lines of that call, of the labels of the initial interest set.
\<close>

theorem full_expansion:
  assumes "interest \<noteq> {}" and "distinct (map eid (instances f))"
    and "write_dot depth f {} = Inr (full, ni0)"
  shows "\<exists>n out final. expand n depth f interest = Some (Inr (out, final))
           \<and> graph_lines out = restrict_to full (component full (interest_labels f interest))"
proof -
  let ?reg = "ifc_objects_of f {}"
  from write_dot_filtered [OF assms(3)] obtain ps
    where ps: "candidates ?reg (by_type f ''IfcRelationship'') = Inr ps"
      and wd: "\<And>I. \<exists>ls. site_loop depth f ?reg I (by_type f ''IfcSite'') = Inr ls
          \<and> write_dot depth f I =
             Inr ([GraphOpen, GraphAttrs] @ node_lines I (by_type f ''IfcObject'')
                    @ kept I ps @ ls @ [BlockClose],
                  I \<union> frontier I ps)"
    by blast
  from wd have wd': "\<exists>out. write_dot depth f I = Inr (out, I \<union> frontier I ps)" for I
    by blast
  from expand_reaches [OF ps wd' assms(1) subset_refl reach_start] obtain n out
    where n: "expand n depth f interest = Some (Inr (out, reach ps interest))"
      and w: "write_dot depth f (reach ps interest) = Inr (out, reach ps interest)"
    by blast
  from wd [of "reach ps interest"] w obtain ls
    where "site_loop depth f ?reg (reach ps interest) (by_type f ''IfcSite'') = Inr ls"
      and "out = [GraphOpen, GraphAttrs] @ node_lines (reach ps interest) (by_type f ''IfcObject'')
                 @ kept (reach ps interest) ps @ ls @ [BlockClose]"
    by auto
  from output_graph_lines(1) [OF ps this]
  have o: "graph_lines out = set (node_lines (reach ps interest) (by_type f ''IfcObject''))
             \<union> set (kept (reach ps interest) ps)" .
  from wd [of "{}"] assms(3) obtain ls0
    where "site_loop depth f ?reg {} (by_type f ''IfcSite'') = Inr ls0"
      and "full = [GraphOpen, GraphAttrs] @ node_lines {} (by_type f ''IfcObject'')
                 @ kept {} ps @ ls0 @ [BlockClose]"
    by auto
  note fl = output_graph_lines [OF ps this]
  from expansion_lines [OF assms(2) ps fl(2) fl(1) assms(1)] o n show ?thesis
    by auto
qed

theorem full_expansion_witness:
  "{1::int} \<noteq> {} \<and> distinct (map eid (instances ex_file))
   \<and> write_dot 5 ex_file {} =
       Inr ([GraphOpen, GraphAttrs, NodeStmt ''#1=IfcSite'' ''#ff99cc'',
             NodeStmt ''#2=IfcWall'' ''#9999ff'',
             EdgeStmt ''#1=IfcSite'' ''#2=IfcWall'' ''9'' ''solid'',
             SubgraphOpen 1, ClusterTrue, Member ''#1=IfcSite'', Member ''#2=IfcWall'',
             BlockClose, BlockClose], {})
   \<and> (\<exists>n out final. expand n 5 ex_file {1} = Some (Inr (out, final))
         \<and> graph_lines out =
             restrict_to [GraphOpen, GraphAttrs, NodeStmt ''#1=IfcSite'' ''#ff99cc'',
                 NodeStmt ''#2=IfcWall'' ''#9999ff'',
                 EdgeStmt ''#1=IfcSite'' ''#2=IfcWall'' ''9'' ''solid'',
                 SubgraphOpen 1, ClusterTrue, Member ''#1=IfcSite'', Member ''#2=IfcWall'',
                 BlockClose, BlockClose]
               (component [GraphOpen, GraphAttrs, NodeStmt ''#1=IfcSite'' ''#ff99cc'',
                   NodeStmt ''#2=IfcWall'' ''#9999ff'',
                   EdgeStmt ''#1=IfcSite'' ''#2=IfcWall'' ''9'' ''solid'',
                   SubgraphOpen 1, ClusterTrue, Member ''#1=IfcSite'', Member ''#2=IfcWall'',
                   BlockClose, BlockClose]
                 (interest_labels ex_file {1})))"
proof -
  have i: "{1::int} \<noteq> {}" by simp
  from full_expansion [OF i ex_distinct ex_run_all] i ex_distinct ex_run_all show ?thesis
    by (intro conjI)
qed

text \<open>
  C3 as stated fails for the empty initial interest set, which the program reads as
  "no filter": the first call already returns the set it was given, its output holds
  every node and every edge, and no label is connected to the labels of no id.
\<close>

theorem full_expansion_empty_counterexample:
  "expand 1 5 ex_file {} =
     Some (Inr ([GraphOpen, GraphAttrs, NodeStmt ''#1=IfcSite'' ''#ff99cc'',
             NodeStmt ''#2=IfcWall'' ''#9999ff'',
             EdgeStmt ''#1=IfcSite'' ''#2=IfcWall'' ''9'' ''solid'',
             SubgraphOpen 1, ClusterTrue, Member ''#1=IfcSite'', Member ''#2=IfcWall'',
             BlockClose, BlockClose], {}))
   \<and> graph_lines [GraphOpen, GraphAttrs, NodeStmt ''#1=IfcSite'' ''#ff99cc'',
             NodeStmt ''#2=IfcWall'' ''#9999ff'',
             EdgeStmt ''#1=IfcSite'' ''#2=IfcWall'' ''9'' ''solid'',
             SubgraphOpen 1, ClusterTrue, Member ''#1=IfcSite'', Member ''#2=IfcWall'',
             BlockClose, BlockClose]
       \<noteq> restrict_to [GraphOpen, GraphAttrs, NodeStmt ''#1=IfcSite'' ''#ff99cc'',
             NodeStmt ''#2=IfcWall'' ''#9999ff'',
             EdgeStmt ''#1=IfcSite'' ''#2=IfcWall'' ''9'' ''solid'',
             SubgraphOpen 1, ClusterTrue, Member ''#1=IfcSite'', Member ''#2=IfcWall'',
             BlockClose, BlockClose]
           (component [GraphOpen, GraphAttrs, NodeStmt ''#1=IfcSite'' ''#ff99cc'',
               NodeStmt ''#2=IfcWall'' ''#9999ff'',
               EdgeStmt ''#1=IfcSite'' ''#2=IfcWall'' ''9'' ''solid'',
               SubgraphOpen 1, ClusterTrue, Member ''#1=IfcSite'', Member ''#2=IfcWall'',
               BlockClose, BlockClose]
             (interest_labels ex_file {}))"
proof -
  have c: "component out (interest_labels ex_file {}) = {}" for out
    by (simp add: component_def interest_labels_def)
  have w: "\<not> within {} s" for s by (cases s) auto
  have r: "restrict_to out (component out (interest_labels ex_file {})) = {}" for out
    by (simp add: c restrict_to_def w)
  have e: "expand 1 5 ex_file {} =
     Some (Inr ([GraphOpen, GraphAttrs, NodeStmt ''#1=IfcSite'' ''#ff99cc'',
             NodeStmt ''#2=IfcWall'' ''#9999ff'',
             EdgeStmt ''#1=IfcSite'' ''#2=IfcWall'' ''9'' ''solid'',
             SubgraphOpen 1, ClusterTrue, Member ''#1=IfcSite'', Member ''#2=IfcWall'',
             BlockClose, BlockClose], {}))"
    by (simp add: ex_run_all)
  have g: "NodeStmt ''#1=IfcSite'' ''#ff99cc'' \<in> graph_lines [GraphOpen, GraphAttrs, NodeStmt ''#1=IfcSite'' ''#ff99cc'',
             NodeStmt ''#2=IfcWall'' ''#9999ff'',
             EdgeStmt ''#1=IfcSite'' ''#2=IfcWall'' ''9'' ''solid'',
             SubgraphOpen 1, ClusterTrue, Member ''#1=IfcSite'', Member ''#2=IfcWall'',
             BlockClose, BlockClose]"
    by (simp add: graph_lines_def)
  from e g show ?thesis unfolding r by blast
qed

subsection \<open>Interest filter\<close>

text \<open>The candidates of the closed form are the candidates of the relationships.\<close>

lemma cand_loop_complete:
  assumes "cand_loop reg (Some a) w s xs = Inr ps" and "Some b \<in> set xs"
    and "reg (eid a) = Some la" and "reg (eid b) = Some lb"
  shows "(eid a, eid b, EdgeStmt la lb w s) \<in> set ps"
  using assms(1,2)
proof (induction xs arbitrary: ps)
  case Nil
  then show ?case by simp
next
  case (Cons x xs)
  from Cons.prems(1) obtain c cs where c: "cand_step reg (Some a) w s x = Inr c"
    and cs: "cand_loop reg (Some a) w s xs = Inr cs" and ps: "ps = c @ cs"
    by (auto simp del: cand_step.simps split: sum.splits)
  from Cons.prems(2) consider "x = Some b" | "Some b \<in> set xs" by auto
  then show ?case
  proof cases
    case 1
    with c assms(3,4) have "c = [(eid a, eid b, EdgeStmt la lb w s)]" by simp
    with ps show ?thesis by simp
  next
    case 2
    from Cons.IH [OF cs 2] ps show ?thesis by simp
  qed
qed

lemma candidates_complete:
  assumes "candidates reg rs = Inr ps" and "r \<in> set rs"
    and "decompose r = Inr (Some a, related, w, s)" and "Some b \<in> set related"
    and "reg (eid a) = Some la" and "reg (eid b) = Some lb"
  shows "(eid a, eid b, EdgeStmt la lb w s) \<in> set ps"
  using assms(1,2)
proof (induction rs arbitrary: ps)
  case Nil
  then show ?case by simp
next
  case (Cons x xs)
  from Cons.prems(1) obtain relating rel w' s' c cs
    where d: "decompose x = Inr (relating, rel, w', s')"
      and c: "cand_loop reg relating w' s' rel = Inr c"
      and cs: "candidates reg xs = Inr cs" and ps: "ps = c @ cs"
    by (auto split: sum.splits prod.splits)
  from Cons.prems(2) consider "x = r" | "r \<in> set xs" by auto
  then show ?case
  proof cases
    case 1
    with d assms(3) have "relating = Some a" "rel = related" "w' = w" "s' = s" by simp_all
    with c cand_loop_complete [OF _ assms(4-6)] have "(eid a, eid b, EdgeStmt la lb w s) \<in> set c"
      by blast
    with ps show ?thesis by simp
  next
    case 2
    from Cons.IH [OF cs 2] ps show ?thesis by simp
  qed
qed

lemma cand_loop_sound:
  assumes "cand_loop reg relating w s xs = Inr ps" and "(x, y, l) \<in> set ps"
  shows "\<exists>a b. relating = Some a \<and> Some b \<in> set xs \<and> x = eid a \<and> y = eid b"
  using assms
proof (induction xs arbitrary: ps)
  case Nil
  then show ?case by simp
next
  case (Cons z zs)
  from Cons.prems(1) obtain c cs where c: "cand_step reg relating w s z = Inr c"
    and cs: "cand_loop reg relating w s zs = Inr cs" and ps: "ps = c @ cs"
    by (auto simp del: cand_step.simps split: sum.splits)
  from Cons.prems(2) ps consider "(x, y, l) \<in> set c" | "(x, y, l) \<in> set cs" by auto
  then show ?case
  proof cases
    case 1
    with c show ?thesis by (auto split: option.splits)
  next
    case 2
    from Cons.IH [OF cs 2] show ?thesis by auto
  qed
qed

lemma candidates_sound:
  assumes "candidates reg rs = Inr ps" and "(x, y, l) \<in> set ps"
  shows "\<exists>r \<in> set rs. \<exists>a related w s b. decompose r = Inr (Some a, related, w, s)
           \<and> Some b \<in> set related \<and> x = eid a \<and> y = eid b"
  using assms
proof (induction rs arbitrary: ps)
  case Nil
  then show ?case by simp
next
  case (Cons r rs)
  from Cons.prems(1) obtain relating rel w s c cs
    where d: "decompose r = Inr (relating, rel, w, s)"
      and c: "cand_loop reg relating w s rel = Inr c"
      and cs: "candidates reg rs = Inr cs" and ps: "ps = c @ cs"
    by (auto split: sum.splits prod.splits)
  from Cons.prems(2) ps consider "(x, y, l) \<in> set c" | "(x, y, l) \<in> set cs" by auto
  then show ?case
  proof cases
    case 1
    from cand_loop_sound [OF c 1] d show ?thesis by auto
  next
    case 2
    from Cons.IH [OF cs 2] show ?thesis by auto
  qed
qed

text \<open>
  C1.  Take a returning call of \<open>write_dot\<close> and an edge candidate of it: a relationship
  of the file, decomposed into a relating object \<open>a\<close> and related objects among which is
  \<open>b\<close>, both ids being keys of the registry.  Case by case, the iteration of the loop of
  line 140 on the candidate does, and the call shows, the following.  Empty interest
  set: the edge line is appended and next-interest is left as it is; the line is in the
  output and the returned set is the input set.  Neither id in a non-empty interest
  set: nothing is appended and next-interest is left as it is; no edge line between
  the two labels is in the output.  Only the relating id in the interest set: nothing
  is appended and the related id is added to next-interest; no edge line between the
  two labels is in the output and the related id is in the returned set.  Only the
  related id in the interest set: the same with the relating id added.  Both ids in
  the interest set: the edge line is appended and next-interest is left as it is; the
  line is in the output.  Every id of the returned set that is not in the input set was
  added by a candidate of the third or fourth case.
\<close>

theorem interest_filter_cases:
  assumes "write_dot depth f interest = Inr (out, ni)"
    and "r \<in> set (by_type f ''IfcRelationship'')"
    and "decompose r = Inr (Some a, related, w, s)" and "Some b \<in> set related"
    and "ifc_objects_of f interest (eid a) = Some la"
    and "ifc_objects_of f interest (eid b) = Some lb"
  shows "(interest = {} \<longrightarrow>
            (\<forall>out0 ni0. edge_step (ifc_objects_of f interest) interest (Some a) w s (Some b) (out0, ni0)
               = Inr (out0 @ [EdgeStmt la lb w s], ni0))
            \<and> EdgeStmt la lb w s \<in> set out \<and> ni = interest)
       \<and> (interest \<noteq> {} \<and> eid a \<notin> interest \<and> eid b \<notin> interest \<longrightarrow>
            (\<forall>out0 ni0. edge_step (ifc_objects_of f interest) interest (Some a) w s (Some b) (out0, ni0)
               = Inr (out0, ni0))
            \<and> (\<forall>w' s'. EdgeStmt la lb w' s' \<notin> set out))
       \<and> (eid a \<in> interest \<and> eid b \<notin> interest \<longrightarrow>
            (\<forall>out0 ni0. edge_step (ifc_objects_of f interest) interest (Some a) w s (Some b) (out0, ni0)
               = Inr (out0, insert (eid b) ni0))
            \<and> (\<forall>w' s'. EdgeStmt la lb w' s' \<notin> set out) \<and> eid b \<in> ni)
       \<and> (eid b \<in> interest \<and> eid a \<notin> interest \<longrightarrow>
            (\<forall>out0 ni0. edge_step (ifc_objects_of f interest) interest (Some a) w s (Some b) (out0, ni0)
               = Inr (out0, insert (eid a) ni0))
            \<and> (\<forall>w' s'. EdgeStmt la lb w' s' \<notin> set out) \<and> eid a \<in> ni)
       \<and> (eid a \<in> interest \<and> eid b \<in> interest \<longrightarrow>
            (\<forall>out0 ni0. edge_step (ifc_objects_of f interest) interest (Some a) w s (Some b) (out0, ni0)
               = Inr (out0 @ [EdgeStmt la lb w s], ni0))
            \<and> EdgeStmt la lb w s \<in> set out)
       \<and> (\<forall>x \<in> ni - interest.
            \<exists>r' \<in> set (by_type f ''IfcRelationship''). \<exists>a' related' w' s' b'.
              decompose r' = Inr (Some a', related', w', s') \<and> Some b' \<in> set related'
              \<and> eid a' \<in> dom (ifc_objects_of f interest) \<and> eid b' \<in> dom (ifc_objects_of f interest)
              \<and> ((eid a' \<in> interest \<and> eid b' \<notin> interest \<and> x = eid b')
                   \<or> (eid b' \<in> interest \<and> eid a' \<notin> interest \<and> x = eid a')))"
proof -
  let ?reg = "ifc_objects_of f interest"
  let ?E = "EdgeStmt la lb w s"
  note st = edge_step_cases [OF assms(5,6), of interest w s]
  from assms(1) obtain ps ls
    where ps: "candidates ?reg (by_type f ''IfcRelationship'') = Inr ps"
      and ls: "site_loop depth f ?reg interest (by_type f ''IfcSite'') = Inr ls"
      and out: "out = [GraphOpen, GraphAttrs] @ node_lines interest (by_type f ''IfcObject'')
                 @ kept interest ps @ ls @ [BlockClose]"
      and ni: "ni = interest \<union> frontier interest ps"
    by (rule write_dot_lines)
  from candidates_complete [OF ps assms(2-6)] have c: "(eid a, eid b, ?E) \<in> set ps" .
  have keep: "?E \<in> set out" if "interest = {} \<or> (eid a \<in> interest \<and> eid b \<in> interest)"
  proof -
    from c that have "?E \<in> set (kept interest ps)" by (force simp: kept_def)
    with out show ?thesis by simp
  qed
  have drop: "EdgeStmt la lb w' s' \<notin> set out"
    if "interest \<noteq> {}" "eid a \<notin> interest \<or> eid b \<notin> interest" for w' s'
  proof
    assume "EdgeStmt la lb w' s' \<in> set out"
    then have "(la, lb) \<in> edge_graph out" by (auto simp: edge_graph_def)
    with output_graph_lines(2) [OF ps ls out] obtain w2 s2
      where "EdgeStmt la lb w2 s2 \<in> set (kept interest ps)" by auto
    from kept_lines [OF ps this] that(1) obtain x y
      where "?reg x = Some la" "?reg y = Some lb" "x \<in> interest" "y \<in> interest"
      by auto
    with registry_inj [OF assms(5), of x] registry_inj [OF assms(6), of y] that(2)
    show False by auto
  qed
  have add_b: "eid b \<in> ni" if "eid a \<in> interest \<and> eid b \<notin> interest"
    using c that ni by (force simp: frontier_def)
  have add_a: "eid a \<in> ni" if "eid b \<in> interest \<and> eid a \<notin> interest"
    using c that ni by (force simp: frontier_def)
  have same: "ni = interest" if "interest = {}"
    using that ni by (simp add: frontier_def)
  have only: "\<exists>r' \<in> set (by_type f ''IfcRelationship''). \<exists>a' related' w' s' b'.
              decompose r' = Inr (Some a', related', w', s') \<and> Some b' \<in> set related'
              \<and> eid a' \<in> dom ?reg \<and> eid b' \<in> dom ?reg
              \<and> ((eid a' \<in> interest \<and> eid b' \<notin> interest \<and> x = eid b')
                   \<or> (eid b' \<in> interest \<and> eid a' \<notin> interest \<and> x = eid a'))"
    if "x \<in> ni - interest" for x
  proof -
    from that ni have "x \<in> frontier interest ps" by blast
    then obtain u v l where m: "(u, v, l) \<in> set ps"
      and e: "(u \<in> interest \<and> v \<notin> interest \<and> x = v) \<or> (v \<in> interest \<and> u \<notin> interest \<and> x = u)"
      by (auto simp: frontier_def)
    from candidates_registered [OF ps m] have reg: "u \<in> dom ?reg" "v \<in> dom ?reg" by auto
    from candidates_sound [OF ps m] obtain r' a' related' w' s' b'
      where "r' \<in> set (by_type f ''IfcRelationship'')"
        "decompose r' = Inr (Some a', related', w', s')" "Some b' \<in> set related'"
        "u = eid a'" "v = eid b'"
      by blast
    with e reg show ?thesis by blast
  qed
  have drops: "\<forall>w' s'. EdgeStmt la lb w' s' \<notin> set out"
    if "interest \<noteq> {}" "eid a \<notin> interest \<or> eid b \<notin> interest"
    using drop [OF that] by blast
  have c1: "interest = {} \<longrightarrow>
            (\<forall>out0 ni0. edge_step ?reg interest (Some a) w s (Some b) (out0, ni0)
               = Inr (out0 @ [?E], ni0))
            \<and> ?E \<in> set out \<and> ni = interest"
    using st(1) keep same by blast
  have c2: "interest \<noteq> {} \<and> eid a \<notin> interest \<and> eid b \<notin> interest \<longrightarrow>
            (\<forall>out0 ni0. edge_step ?reg interest (Some a) w s (Some b) (out0, ni0)
               = Inr (out0, ni0))
            \<and> (\<forall>w' s'. EdgeStmt la lb w' s' \<notin> set out)"
    using st(2) drops by blast
  have c3: "eid a \<in> interest \<and> eid b \<notin> interest \<longrightarrow>
            (\<forall>out0 ni0. edge_step ?reg interest (Some a) w s (Some b) (out0, ni0)
               = Inr (out0, insert (eid b) ni0))
            \<and> (\<forall>w' s'. EdgeStmt la lb w' s' \<notin> set out) \<and> eid b \<in> ni"
  proof
    assume h: "eid a \<in> interest \<and> eid b \<notin> interest"
    then have "interest \<noteq> {}" by blast
    with h st(3) [OF h] drops add_b show "(\<forall>out0 ni0. edge_step ?reg interest (Some a) w s (Some b) (out0, ni0)
               = Inr (out0, insert (eid b) ni0))
            \<and> (\<forall>w' s'. EdgeStmt la lb w' s' \<notin> set out) \<and> eid b \<in> ni"
      by blast
  qed
  have c4: "eid b \<in> interest \<and> eid a \<notin> interest \<longrightarrow>
            (\<forall>out0 ni0. edge_step ?reg interest (Some a) w s (Some b) (out0, ni0)
               = Inr (out0, insert (eid a) ni0))
            \<and> (\<forall>w' s'. EdgeStmt la lb w' s' \<notin> set out) \<and> eid a \<in> ni"
  proof
    assume h: "eid b \<in> interest \<and> eid a \<notin> interest"
    then have "interest \<noteq> {}" by blast
    with h st(4) [OF h] drops add_a show "(\<forall>out0 ni0. edge_step ?reg interest (Some a) w s (Some b) (out0, ni0)
               = Inr (out0, insert (eid a) ni0))
            \<and> (\<forall>w' s'. EdgeStmt la lb w' s' \<notin> set out) \<and> eid a \<in> ni"
      by blast
  qed
  have c5: "eid a \<in> interest \<and> eid b \<in> interest \<longrightarrow>
            (\<forall>out0 ni0. edge_step ?reg interest (Some a) w s (Some b) (out0, ni0)
               = Inr (out0 @ [?E], ni0))
            \<and> ?E \<in> set out"
    using st(5) keep by blast
  from only have c6: "\<forall>x \<in> ni - interest.
            \<exists>r' \<in> set (by_type f ''IfcRelationship''). \<exists>a' related' w' s' b'.
              decompose r' = Inr (Some a', related', w', s') \<and> Some b' \<in> set related'
              \<and> eid a' \<in> dom ?reg \<and> eid b' \<in> dom ?reg
              \<and> ((eid a' \<in> interest \<and> eid b' \<notin> interest \<and> x = eid b')
                   \<or> (eid b' \<in> interest \<and> eid a' \<notin> interest \<and> x = eid a'))"
    by blast
  from c1 c2 c3 c4 c5 c6 show ?thesis by (intro conjI)
qed

lemma ex_run_wall:
  "write_dot 5 ex_file {2} = Inr ([GraphOpen, GraphAttrs, NodeStmt ''#2=IfcWall'' ''#9999ff'', BlockClose], {1, 2})"
  by code_simp

lemma ex_run_none:
  "write_dot 5 ex_file {5} = Inr ([GraphOpen, GraphAttrs, BlockClose], {5})"
  by code_simp

lemma ex_candidate:
  "ex_rel \<in> set (by_type ex_file ''IfcRelationship'')"
  "decompose ex_rel = Inr (Some ex_site, [Some ex_wall], ''9'', ''solid'')"
  "Some ex_wall \<in> set [Some ex_wall]"
  "ifc_objects_of ex_file interest (eid ex_site) = Some ''#1=IfcSite''"
  "ifc_objects_of ex_file interest (eid ex_wall) = Some ''#2=IfcWall''"
proof -
  show "ex_rel \<in> set (by_type ex_file ''IfcRelationship'')" by code_simp
  show "decompose ex_rel = Inr (Some ex_site, [Some ex_wall], ''9'', ''solid'')" by code_simp
  show "Some ex_wall \<in> set [Some ex_wall]" by simp
  have "ifc_objects_of ex_file {} (eid ex_site) = Some ''#1=IfcSite''" by code_simp
  then show "ifc_objects_of ex_file interest (eid ex_site) = Some ''#1=IfcSite''"
    by (simp only: registry_any_interest [of ex_file interest "{}"])
  have "ifc_objects_of ex_file {} (eid ex_wall) = Some ''#2=IfcWall''" by code_simp
  then show "ifc_objects_of ex_file interest (eid ex_wall) = Some ''#2=IfcWall''"
    by (simp only: registry_any_interest [of ex_file interest "{}"])
qed

theorem interest_filter_cases_witness:
  "ex_rel \<in> set (by_type ex_file ''IfcRelationship'')
   \<and> decompose ex_rel = Inr (Some ex_site, [Some ex_wall], ''9'', ''solid'')
   \<and> Some ex_wall \<in> set [Some ex_wall]
   \<and> ifc_objects_of ex_file {} (eid ex_site) = Some ''#1=IfcSite''
   \<and> ifc_objects_of ex_file {} (eid ex_wall) = Some ''#2=IfcWall''
   \<and> (\<exists>out ni. write_dot 5 ex_file {} = Inr (out, ni)
         \<and> EdgeStmt ''#1=IfcSite'' ''#2=IfcWall'' ''9'' ''solid'' \<in> set out \<and> ni = {})
   \<and> (\<exists>out ni. write_dot 5 ex_file {5} = Inr (out, ni)
         \<and> (\<forall>w' s'. EdgeStmt ''#1=IfcSite'' ''#2=IfcWall'' w' s' \<notin> set out) \<and> ni - {5} = {})
   \<and> (\<exists>out ni. write_dot 5 ex_file {1} = Inr (out, ni)
         \<and> (\<forall>w' s'. EdgeStmt ''#1=IfcSite'' ''#2=IfcWall'' w' s' \<notin> set out) \<and> eid ex_wall \<in> ni)
   \<and> (\<exists>out ni. write_dot 5 ex_file {2} = Inr (out, ni)
         \<and> (\<forall>w' s'. EdgeStmt ''#1=IfcSite'' ''#2=IfcWall'' w' s' \<notin> set out) \<and> eid ex_site \<in> ni)
   \<and> (\<exists>out ni. write_dot 5 ex_file {1, 2} = Inr (out, ni)
         \<and> EdgeStmt ''#1=IfcSite'' ''#2=IfcWall'' ''9'' ''solid'' \<in> set out)"
proof -
  note c = ex_candidate
  have i: "eid ex_site = 1" "eid ex_wall = 2" by (simp_all add: ex_ids)
  from interest_filter_cases [OF ex_run_all c(1-3) c(4) [of "{}"] c(5) [of "{}"]]
  have 1: "\<exists>out ni. write_dot 5 ex_file {} = Inr (out, ni)
         \<and> EdgeStmt ''#1=IfcSite'' ''#2=IfcWall'' ''9'' ''solid'' \<in> set out \<and> ni = {}"
    using ex_run_all by simp
  from interest_filter_cases [OF ex_run_none c(1-3) c(4) [of "{5}"] c(5) [of "{5}"]]
  have "\<forall>w' s'. EdgeStmt ''#1=IfcSite'' ''#2=IfcWall'' w' s' \<notin> set [GraphOpen, GraphAttrs, BlockClose]"
    by (simp add: i)
  then have 2: "\<exists>out ni. write_dot 5 ex_file {5} = Inr (out, ni)
         \<and> (\<forall>w' s'. EdgeStmt ''#1=IfcSite'' ''#2=IfcWall'' w' s' \<notin> set out) \<and> ni - {5} = {}"
    using ex_run_none by simp
  from interest_filter_cases [OF ex_run_site c(1-3) c(4) [of "{1}"] c(5) [of "{1}"]]
  have "eid ex_wall \<in> {2, 1::int}"
    by (simp add: i)
  then have 3: "\<exists>out ni. write_dot 5 ex_file {1} = Inr (out, ni)
         \<and> (\<forall>w' s'. EdgeStmt ''#1=IfcSite'' ''#2=IfcWall'' w' s' \<notin> set out) \<and> eid ex_wall \<in> ni"
    using ex_run_site by simp
  from interest_filter_cases [OF ex_run_wall c(1-3) c(4) [of "{2}"] c(5) [of "{2}"]]
  have "eid ex_site \<in> {1, 2::int}"
    by (simp add: i)
  then have 4: "\<exists>out ni. write_dot 5 ex_file {2} = Inr (out, ni)
         \<and> (\<forall>w' s'. EdgeStmt ''#1=IfcSite'' ''#2=IfcWall'' w' s' \<notin> set out) \<and> eid ex_site \<in> ni"
    using ex_run_wall by simp
  from interest_filter_cases [OF ex_run_both c(1-3) c(4) [of "{1, 2}"] c(5) [of "{1, 2}"]]
  have 5: "\<exists>out ni. write_dot 5 ex_file {1, 2} = Inr (out, ni)
         \<and> EdgeStmt ''#1=IfcSite'' ''#2=IfcWall'' ''9'' ''solid'' \<in> set out"
    using ex_run_both by simp
  from c(1-3) c(4) [of "{}"] c(5) [of "{}"] 1 2 3 4 5 show ?thesis
    by (intro conjI)
qed

end
